theory Spec2Isabelle
  imports Complex_Main "HOL-Library.Sublist"
begin

section \<open>The HTTP client of \<open>ReviewScraper\<close>\<close>

text \<open>
  The base class \<open>ReviewScraper\<close> of \<open>src/reviewScraper.js\<close> holds the courtesy delay and
  the axios configuration, of which only the \<open>User-Agent\<close> header is ever mutated.
  Everything the class asks of the outside is an oracle: \<open>Math.random()\<close> is a stream of
  reals, \<open>axios.get\<close> a stream of outcomes; the client state counts how many of each have
  been consumed and logs the effects (timed suspensions and requests) in order.
  Times are milliseconds.
\<close>

record response =
  status :: nat
  data :: "string option"

text \<open>
  \<open>axios.get\<close> either resolves with a response or rejects with an error whose
  \<open>error.response?.status\<close> is a status code or \<open>undefined\<close> (a network error).
\<close>

datatype outcome = Resolved response | Rejected "nat option"

record world =
  random :: "nat \<Rightarrow> real"
  http :: "nat \<Rightarrow> outcome"

text \<open>The call sites of \<open>this.sleep\<close> in \<open>safeRequest\<close>.\<close>

datatype sleep_kind = Courtesy | RateLimit | Forbidden | Linear

datatype event = Slept sleep_kind real | Requested string "string option"

text \<open>
  What can be thrown: a \<open>TypeError\<close> of the language, a rejection by the browser driver,
  and the \<open>Error\<close> objects the scrapers throw themselves.
\<close>

datatype error = TypeError | BrowserError | ScrapeError

record client =
  delay :: real
  userAgent :: "string option"
  rnd_ix :: nat
  req_ix :: nat
  trace :: "event list"

definition defaultUserAgent :: string where
  "defaultUserAgent =
     ''Mozilla/5.0 (Windows NT 10.0; Win64; x64) AppleWebKit/537.36 (KHTML, like Gecko) Chrome/120.0.0.0 Safari/537.36''"

text \<open>The constructor: \<open>delay = 2000\<close> unless given, the header set to the default agent.\<close>

definition newClient :: "real \<Rightarrow> client" where
  "newClient d =
     \<lparr>delay = d, userAgent = Some defaultUserAgent, rnd_ix = 0, req_ix = 0, trace = []\<rparr>"

text \<open>\<open>Math.random()\<close>: the next value of the stream.\<close>

definition math_random :: "world \<Rightarrow> client \<Rightarrow> real \<times> client" where
  "math_random w s = (random w (rnd_ix s), s\<lparr>rnd_ix := Suc (rnd_ix s)\<rparr>)"

text \<open>
  \<open>sleep(ms = null)\<close>: \<open>const delay = ms || this.delay + Math.random() * 1000\<close>.
  A missing or zero argument is falsy and takes the jittered default, which draws one
  random number; a non-zero argument draws none.
\<close>

definition sleep :: "world \<Rightarrow> sleep_kind \<Rightarrow> real option \<Rightarrow> client \<Rightarrow> client" where
  "sleep w k ms s =
     (if ms \<noteq> None \<and> ms \<noteq> Some 0 then s\<lparr>trace := trace s @ [Slept k (the ms)]\<rparr>
      else (let (r, s1) = math_random w s
            in s1\<lparr>trace := trace s1 @ [Slept k (delay s1 + r * 1000)]\<rparr>))"

definition userAgents :: "string list" where
  "userAgents =
     [''Mozilla/5.0 (Windows NT 10.0; Win64; x64) AppleWebKit/537.36 (KHTML, like Gecko) Chrome/120.0.0.0 Safari/537.36'',
      ''Mozilla/5.0 (Macintosh; Intel Mac OS X 10_15_7) AppleWebKit/537.36 (KHTML, like Gecko) Chrome/120.0.0.0 Safari/537.36'',
      ''Mozilla/5.0 (Windows NT 10.0; Win64; x64; rv:109.0) Gecko/20100101 Firefox/121.0'',
      ''Mozilla/5.0 (Macintosh; Intel Mac OS X 10_15_7) AppleWebKit/605.1.15 (KHTML, like Gecko) Version/17.1 Safari/605.1.15'']"

text \<open>
  \<open>userAgents[Math.floor(Math.random() * userAgents.length)]\<close>. Indexing a JavaScript
  array out of range gives \<open>undefined\<close>, here \<open>None\<close>.
\<close>

definition getRandomUserAgent :: "world \<Rightarrow> client \<Rightarrow> string option \<times> client" where
  "getRandomUserAgent w s =
     (let (r, s1) = math_random w s;
          i = \<lfloor>r * real (length userAgents)\<rfloor>
      in (if 0 \<le> i \<and> nat i < length userAgents then Some (userAgents ! nat i) else None, s1))"

text \<open>\<open>axios.get(url, this.axiosConfig)\<close>: the next outcome, sent with the current agent.\<close>

definition axios_get :: "world \<Rightarrow> string \<Rightarrow> client \<Rightarrow> outcome \<times> client" where
  "axios_get w url s =
     (http w (req_ix s),
      s\<lparr>req_ix := Suc (req_ix s), trace := trace s @ [Requested url (userAgent s)]\<rparr>)"

text \<open>
  What one pass through the body of the \<open>for\<close> loop decides: go on to the next attempt,
  return a value, or let an exception escape.
\<close>

datatype flow = Retry | Done "error + response option"

text \<open>
  The \<open>catch\<close> block, for \<open>statusCode = error.response?.status\<close>. After rotating, the
  new agent is logged with \<open>.substring(0, 50)\<close>, which throws a \<open>TypeError\<close> on
  \<open>undefined\<close>; nothing encloses the \<open>catch\<close> block, so that exception would escape.
\<close>

definition on_error :: "world \<Rightarrow> nat \<Rightarrow> nat \<Rightarrow> nat option \<Rightarrow> client \<Rightarrow> flow \<times> client" where
  "on_error w maxRetries attempt statusCode s =
     (if statusCode = Some 429 then
        (Retry, sleep w RateLimit (Some (2 ^ attempt * 2000)) s)
      else if statusCode = Some 403 then
        (let (ua, s1) = getRandomUserAgent w s;
             s2 = s1\<lparr>userAgent := ua\<rparr>
         in (case ua of
               None \<Rightarrow> (Done (Inl TypeError), s2)
             | Some _ \<Rightarrow> (Retry, sleep w Forbidden (Some 3000) s2)))
      else if statusCode = Some 404 then (Done (Inr None), s)
      else if int attempt = int maxRetries - 1 then (Done (Inr None), s)
      else (Retry, sleep w Linear (Some (2000 * (real attempt + 1))) s))"

text \<open>
  The \<open>try\<close> block followed by the \<open>catch\<close>. A response whose status is not 200 falls
  out of the \<open>try\<close> without a wait. The success message reads \<open>response.data.length\<close>,
  which throws inside the \<open>try\<close> when the body is \<open>null\<close> or \<open>undefined\<close>: the error
  then has no \<open>response\<close>.
\<close>

definition attempt_once :: "world \<Rightarrow> string \<Rightarrow> nat \<Rightarrow> nat \<Rightarrow> client \<Rightarrow> flow \<times> client" where
  "attempt_once w url maxRetries attempt s =
     (let s1 = sleep w Courtesy None s;
          (out, s2) = axios_get w url s1
      in (case out of
            Resolved r \<Rightarrow>
              (if status r = 200 then
                 (case data r of
                    Some _ \<Rightarrow> (Done (Inr (Some r)), s2)
                  | None \<Rightarrow> on_error w maxRetries attempt None s2)
               else (Retry, s2))
          | Rejected statusCode \<Rightarrow> on_error w maxRetries attempt statusCode s2))"

text \<open>\<open>for (let attempt = 0; attempt < maxRetries; attempt++) { ... } return null;\<close>\<close>

function safeRequest_from ::
  "world \<Rightarrow> string \<Rightarrow> nat \<Rightarrow> nat \<Rightarrow> client \<Rightarrow> (error + response option) \<times> client" where
  "safeRequest_from w url maxRetries attempt s =
     (if attempt < maxRetries then
        (case attempt_once w url maxRetries attempt s of
           (Done r, s') \<Rightarrow> (r, s')
         | (Retry, s') \<Rightarrow> safeRequest_from w url maxRetries (Suc attempt) s')
      else (Inr None, s))"
  by pat_completeness auto
termination
  by (relation "measure (\<lambda>(w, url, maxRetries, attempt, s). maxRetries - attempt)") auto

definition safeRequest ::
  "world \<Rightarrow> string \<Rightarrow> nat \<Rightarrow> client \<Rightarrow> (error + response option) \<times> client" where
  "safeRequest w url maxRetries s = safeRequest_from w url maxRetries 0 s"

text \<open>The contract of \<open>Math.random\<close>: every value lies in \<open>[0, 1)\<close>.\<close>

definition valid_random :: "world \<Rightarrow> bool" where
  "valid_random w \<longleftrightarrow> (\<forall>i. 0 \<le> random w i \<and> random w i < 1)"

section \<open>The browser-backed scrapers\<close>

subsection \<open>Challenge detection\<close>

text \<open>
  The page as one inspection finds it: \<open>page.$(selector)\<close> resolves to an element or to
  \<open>null\<close> (\<open>Inr True\<close>, \<open>Inr False\<close>) or rejects; \<open>page.content()\<close> resolves to the HTML
  or rejects; \<open>page.url()\<close> is the current location.
\<close>

record page_view =
  query :: "string \<Rightarrow> error + bool"
  content :: "error + string"
  page_url :: string

definition captchaSelectors :: "string list" where
  "captchaSelectors =
     [''.g-recaptcha'', ''#recaptcha'', ''[data-testid*=\"captcha\"]'', ''.captcha'',
      ''.cf-browser-verification'', ''.challenge-running'', ''iframe[src*=\"recaptcha\"]'',
      ''iframe[src*=\"captcha\"]'', ''.cloudflare-browser-verification'']"

definition g2_captchaText :: "string list" where
  "g2_captchaText =
     [''please complete the security check'', ''verify you are human'',
      ''prove you are not a robot'', ''complete the captcha'', ''security verification'',
      ''checking your browser'', ''cloudflare'',
      ''Verifying you are human. This may take a few seconds.'',
      ''just a moment while we check your browser'']"

definition capterra_captchaText :: "string list" where
  "capterra_captchaText =
     [''please complete the security check'', ''verify you are human'',
      ''prove you are not a robot'', ''complete the captcha'', ''security verification'',
      ''checking your browser'', ''Verifying you are human. This may take a few seconds.'',
      ''Verify you are human by completing the action below.'', ''browser verification'',
      ''security check'']"

text \<open>\<open>String.prototype.toLowerCase\<close> on the ASCII letters, and \<open>String.prototype.includes\<close>.\<close>

definition toLowerCase :: "string \<Rightarrow> string" where
  "toLowerCase =
     map (\<lambda>c. if 65 \<le> (of_char c :: nat) \<and> (of_char c :: nat) \<le> 90
              then char_of (of_char c + 32 :: nat) else c)"

definition str_includes :: "string \<Rightarrow> string \<Rightarrow> bool" where
  "str_includes s t = sublist t s"

text \<open>
  \<open>for (const selector of captchaSelectors) { if (await this.page.$(selector)) return true; }\<close>:
  stops at the first selector that matches or whose query rejects.
\<close>

fun find_selector :: "(string \<Rightarrow> error + bool) \<Rightarrow> string list \<Rightarrow> error + bool" where
  "find_selector q [] = Inr False"
| "find_selector q (selector # rest) =
     (case q selector of
        Inl e \<Rightarrow> Inl e
      | Inr True \<Rightarrow> Inr True
      | Inr False \<Rightarrow> find_selector q rest)"

text \<open>
  The \<open>try\<close> block of \<open>detectCaptcha\<close>. The scraper's \<open>this.page\<close> is \<open>null\<close> until a
  session is attached (\<open>None\<close>): \<open>this.page.$\<close> is then a \<open>TypeError\<close>.
\<close>

definition detect_try :: "string list \<Rightarrow> page_view option \<Rightarrow> error + bool" where
  "detect_try captchaText pg =
     (case pg of
        None \<Rightarrow> Inl TypeError
      | Some p \<Rightarrow>
          (case find_selector (query p) captchaSelectors of
             Inl e \<Rightarrow> Inl e
           | Inr True \<Rightarrow> Inr True
           | Inr False \<Rightarrow>
               (case content p of
                  Inl e \<Rightarrow> Inl e
                | Inr c \<Rightarrow> Inr (list_ex (\<lambda>text. str_includes (toLowerCase c) text) captchaText))))"

text \<open>\<open>try { ... } catch (error) { return false; }\<close>\<close>

definition detectCaptcha :: "string list \<Rightarrow> page_view option \<Rightarrow> error + bool" where
  "detectCaptcha captchaText pg =
     (case detect_try captchaText pg of Inl e \<Rightarrow> Inr False | Inr b \<Rightarrow> Inr b)"

definition g2_detectCaptcha :: "page_view option \<Rightarrow> error + bool" where
  "g2_detectCaptcha = detectCaptcha g2_captchaText"

definition capterra_detectCaptcha :: "page_view option \<Rightarrow> error + bool" where
  "capterra_detectCaptcha = detectCaptcha capterra_captchaText"

subsection \<open>Waiting for the page to be ready\<close>

text \<open>
  What the \<open>k\<close>-th pass through the loop of \<open>waitForPageReady\<close> meets: the reading of
  \<open>Date.now()\<close> in the loop test, whether \<open>page.waitForTimeout(2000)\<close> resolves, the page
  as inspected after it, and whether the \<open>waitForTimeout(2000)\<close> of the \<open>catch\<close> block
  resolves.
\<close>

record poll =
  clock :: int
  tick :: bool
  view :: "page_view option"
  recover :: bool

text \<open>What one pass through the body of the \<open>while\<close> loop decides.\<close>

datatype wait_flow = Again | Return "error + bool"

text \<open>
  The body of the loop: the \<open>try\<close> block and its \<open>catch\<close>. With \<open>this.page\<close> still
  \<open>null\<close> (\<open>view = None\<close>) both calls of \<open>this.page.waitForTimeout\<close> are \<open>TypeError\<close>s, and
  the one in the \<open>catch\<close> block escapes. \<open>if (expectedUrlPattern)\<close> is false for \<open>null\<close>
  and for the empty string.
\<close>

definition wait_iteration ::
  "(page_view option \<Rightarrow> error + bool) \<Rightarrow> string option \<Rightarrow> poll \<Rightarrow> wait_flow" where
  "wait_iteration detect expectedUrlPattern p =
     (case view p of
        None \<Rightarrow> Return (Inl TypeError)
      | Some pg \<Rightarrow>
          (if tick p then
             (case detect (view p) of
                Inl e \<Rightarrow> (if recover p then Again else Return (Inl BrowserError))
              | Inr hasCaptcha \<Rightarrow>
                  (if \<not> hasCaptcha then
                     (if expectedUrlPattern \<noteq> None \<and> expectedUrlPattern \<noteq> Some [] then
                        (if str_includes (page_url pg) (the expectedUrlPattern)
                         then Return (Inr True) else Again)
                      else Return (Inr True))
                   else Again))
           else (if recover p then Again else Return (Inl BrowserError))))"

text \<open>
  \<open>while (Date.now() - startTime < maxWaitTime) { ... } return false;\<close>
  The result carries the index of the last reading of the clock, so that the time elapsed
  at the return is \<open>clock (env k) - startTime\<close>. The loop has no bound of its own: where
  it never returns the value is \<open>None\<close>.
\<close>

partial_function (option) wait_loop ::
  "(page_view option \<Rightarrow> error + bool) \<Rightarrow> string option \<Rightarrow> int \<Rightarrow> int \<Rightarrow> (nat \<Rightarrow> poll) \<Rightarrow> nat
    \<Rightarrow> ((error + bool) \<times> nat) option" where
  "wait_loop detect expectedUrlPattern maxWaitTime startTime env k =
     (if clock (env k) - startTime < maxWaitTime then
        (case wait_iteration detect expectedUrlPattern (env k) of
           Again \<Rightarrow> wait_loop detect expectedUrlPattern maxWaitTime startTime env (Suc k)
         | Return r \<Rightarrow> Some (r, k))
      else Some (Inr False, k))"

text \<open>
  \<open>const startTime = Date.now()\<close>, then the loop. The copies of \<open>waitForPageReady\<close> in
  \<open>G2Scraper\<close> and \<open>CapterraScraper\<close> are the same text; they differ in the
  \<open>detectCaptcha\<close> they call, here the parameter \<open>detect\<close>.
\<close>

definition waitForPageReady ::
  "(page_view option \<Rightarrow> error + bool) \<Rightarrow> string option \<Rightarrow> int \<Rightarrow> int \<Rightarrow> (nat \<Rightarrow> poll)
    \<Rightarrow> ((error + bool) \<times> nat) option" where
  "waitForPageReady detect expectedUrlPattern maxWaitTime startTime env =
     wait_loop detect expectedUrlPattern maxWaitTime startTime env 0"

subsection \<open>Attaching to the browser\<close>

text \<open>
  Browser connections and pages are objects of the driver; the model names each by a
  handle, so that identity of objects is equality of handles. The \<open>k\<close>-th call of
  \<open>chromium.connectOverCDP\<close> is refused or yields a connection with its contexts; a
  context has its open pages, and \<open>context.newPage()\<close> yields a page or rejects.
  \<open>findChromeExecutable\<close> finds a path or \<open>null\<close>.
\<close>

type_synonym handle = nat

record browser_context =
  pages :: "handle list"
  newPage :: "handle option"

datatype attach = Refused | Attached handle "browser_context list"

record chrome =
  cdp :: "nat \<Rightarrow> attach"
  chromePath :: "string option"

text \<open>The fields \<open>this.browser\<close> and \<open>this.page\<close> of a scraper (\<open>null\<close> is \<open>None\<close>).\<close>

record scraper =
  this_browser :: "handle option"
  this_page :: "handle option"
  cdp_ix :: nat

definition newScraper :: scraper where
  "newScraper = \<lparr>this_browser = None, this_page = None, cdp_ix = 0\<rparr>"

text \<open>
  \<open>connectToExistingChrome\<close>: assigns \<open>this.browser\<close> as soon as the connection is
  made, \<open>this.page\<close> once a page is found or opened; any exception gives \<open>false\<close>.
\<close>

definition connectToExistingChrome :: "chrome \<Rightarrow> scraper \<Rightarrow> bool \<times> scraper" where
  "connectToExistingChrome env sc =
     (let sc0 = sc\<lparr>cdp_ix := Suc (cdp_ix sc)\<rparr>
      in (case cdp env (cdp_ix sc) of
            Refused \<Rightarrow> (False, sc0)
          | Attached b contexts \<Rightarrow>
              (let sc1 = sc0\<lparr>this_browser := Some b\<rparr>
               in (case contexts of
                     [] \<Rightarrow> (False, sc1)
                   | context # _ \<Rightarrow>
                       (case pages context of
                          [] \<Rightarrow>
                            (case newPage context of
                               None \<Rightarrow> (False, sc1)
                             | Some p \<Rightarrow> (True, sc1\<lparr>this_page := Some p\<rparr>))
                        | p # _ \<Rightarrow> (True, sc1\<lparr>this_page := Some p\<rparr>))))))"

text \<open>
  \<open>initializeBrowser\<close>: attach; failing that, find and launch Chrome
  (\<open>launchChromeWithDebugPort\<close> only waits) and attach again; failing that, throw.
\<close>

definition initializeBrowser :: "chrome \<Rightarrow> scraper \<Rightarrow> (error + bool) \<times> scraper" where
  "initializeBrowser env sc =
     (let (connected, sc1) = connectToExistingChrome env sc
      in if connected then (Inr True, sc1)
         else (case chromePath env of
                 None \<Rightarrow> (Inl ScrapeError, sc1)
               | Some path \<Rightarrow>
                   (let (connected2, sc2) = connectToExistingChrome env sc1
                    in if connected2 then (Inr True, sc2) else (Inl ScrapeError, sc2))))"

text \<open>
  The acquisitions at the start of \<open>CapterraScraper.scrapeReviews\<close>, for a valid company
  name: its own \<open>await this.initializeBrowser()\<close>, then the one that opens
  \<open>findProductUrl\<close>.
\<close>

definition capterra_acquire :: "chrome \<Rightarrow> scraper \<Rightarrow> (error + bool) \<times> scraper" where
  "capterra_acquire env sc =
     (case initializeBrowser env sc of
        (Inl e, sc1) \<Rightarrow> (Inl e, sc1)
      | (Inr _, sc1) \<Rightarrow> initializeBrowser env sc1)"

text \<open>
  Read off the outcome of an attach alone: the session it offers, that is the connection
  with the first page of its first context, or with a newly opened page when that context
  has none; nothing when the attach is refused, when the connection has no context, or
  when the context has no page and none can be opened. \<open>initializeBrowser\<close> is compared
  with it below.
\<close>

definition offered_session :: "attach \<Rightarrow> (handle \<times> handle) option" where
  "offered_session a =
     (case a of
        Refused \<Rightarrow> None
      | Attached b contexts \<Rightarrow>
          (case contexts of
             [] \<Rightarrow> None
           | context # _ \<Rightarrow>
               (case pages context of
                  [] \<Rightarrow> (case newPage context of None \<Rightarrow> None | Some p \<Rightarrow> Some (b, p))
                | p # _ \<Rightarrow> Some (b, p))))"

section \<open>Pagination\<close>

text \<open>
  A review as the extraction of a source returns it; \<open>date\<close> is \<open>undefined\<close> (\<open>None\<close>)
  when the element carries none. Dates are the millisecond values of \<open>Date\<close> objects.
  The job of a run: the extraction of the source (\<open>findReviewElements\<close> followed by
  \<open>extractReviewData\<close>, \<open>None\<close> where that returns nothing), the date parsing of the
  \<open>moment\<close> library (cleaning, the strict formats, the natural fallback), the window and
  the page limit (\<open>-1\<close> is unbounded).
\<close>

record review =
  title :: string
  date :: "string option"
  details :: string

record job =
  extractReviews :: "string \<Rightarrow> review option list"
  moment :: "string \<Rightarrow> int option"
  startDate :: int
  endDate :: int
  maxPages :: int

text \<open>\<open>if (!dateStr || dateStr === 'Unknown' || dateStr === 'No date') return null;\<close>\<close>

definition parseDate :: "(string \<Rightarrow> int option) \<Rightarrow> string option \<Rightarrow> int option" where
  "parseDate parse dateStr =
     (case dateStr of
        None \<Rightarrow> None
      | Some d \<Rightarrow> if d = [] \<or> d = ''Unknown'' \<or> d = ''No date'' then None else parse d)"

text \<open>\<open>if (!reviewDate) return false; return reviewDate >= startDate && reviewDate <= endDate;\<close>\<close>

definition isDateInRange :: "int option \<Rightarrow> int \<Rightarrow> int \<Rightarrow> bool" where
  "isDateInRange reviewDate start end =
     (case reviewDate of None \<Rightarrow> False | Some d \<Rightarrow> start \<le> d \<and> d \<le> end)"

text \<open>
  The variables of the loop, with two ghost fields: \<open>iter\<close> counts the passes (it indexes
  what the outside answers), \<open>visits\<close> logs each page fetched with the value of
  \<open>consecutiveEmptyPages\<close> at that moment.
\<close>

record pager =
  reviews :: "review list"
  page :: nat
  hasMorePages :: bool
  consecutiveEmptyPages :: nat
  iter :: nat
  visits :: "(nat \<times> nat) list"

definition start_pager :: pager where
  "start_pager =
     \<lparr>reviews = [], page = 1, hasMorePages = True, consecutiveEmptyPages = 0, iter = 0,
      visits = []\<rparr>"

text \<open>
  \<open>reviewElements.each(...)\<close>, on the list of reviews and the two counters
  \<open>pageReviews\<close> and \<open>reviewsOutsideDateRange\<close>.
\<close>

fun each_review ::
  "job \<Rightarrow> review option list \<Rightarrow> review list \<times> nat \<times> nat \<Rightarrow> review list \<times> nat \<times> nat" where
  "each_review j [] acc = acc"
| "each_review j (element # rest) (revs, pageReviews, reviewsOutsideDateRange) =
     each_review j rest
       (case element of
          None \<Rightarrow> (revs, pageReviews, reviewsOutsideDateRange)
        | Some reviewData \<Rightarrow>
            (let reviewDate = parseDate (moment j) (date reviewData)
             in if isDateInRange reviewDate (startDate j) (endDate j)
                then (revs @ [reviewData], Suc pageReviews, reviewsOutsideDateRange)
                else if reviewDate \<noteq> None \<and> the reviewDate < startDate j
                then (revs, pageReviews, Suc reviewsOutsideDateRange)
                else (revs, pageReviews, reviewsOutsideDateRange)))"

text \<open>
  The part of the loop body the three scrapers share, after a page with review elements:
  \<open>consecutiveEmptyPages = 0\<close>, then filter and count.
\<close>

definition count_page :: "job \<Rightarrow> review option list \<Rightarrow> pager \<Rightarrow> pager \<times> nat \<times> nat" where
  "count_page j reviewElements st =
     (let (revs, pageReviews, reviewsOutsideDateRange) =
            each_review j reviewElements (reviews st, 0, 0)
      in (st\<lparr>consecutiveEmptyPages := 0, reviews := revs\<rparr>, pageReviews,
          reviewsOutsideDateRange))"

subsection \<open>G2 and Capterra\<close>

text \<open>
  What one pass of a browser-backed loop meets: the result of \<open>navigateToPage\<close> (which
  catches every exception), of \<open>getPageContent\<close> (\<open>null\<close> on failure), and, where they
  are called, of \<open>detectCaptcha\<close>, of \<open>waitForPageReady\<close> (\<open>None\<close> when it throws) and
  of the closing \<open>page.waitForTimeout(1000)\<close> (\<open>False\<close> when it rejects).
\<close>

record visit =
  navigationSuccess :: bool
  htmlContent :: "string option"
  hasCaptcha :: bool
  resolved :: "bool option"
  pauseOk :: bool

text \<open>
  The body of the \<open>while\<close> loop of \<open>G2Scraper.scrapeReviews\<close> and of
  \<open>CapterraScraper.scrapeReviews\<close>. The Capterra body also calls
  \<open>setSortToMostRecent\<close> and \<open>expandAllReadMoreButtons\<close>, which catch their own
  exceptions and return nothing. \<open>!htmlContent\<close> holds for \<open>null\<close> and for the empty
  string. The page URL built from the product URL and the page number goes to
  \<open>navigateToPage\<close> only, whose outcome is given.
\<close>

definition browser_iteration :: "(nat \<Rightarrow> visit) \<Rightarrow> job \<Rightarrow> pager \<Rightarrow> error + pager" where
  "browser_iteration env j st =
     (let v = env (iter st);
          st0 = st\<lparr>iter := Suc (iter st),
                   visits := visits st @ [(page st, consecutiveEmptyPages st)]\<rparr>
      in if \<not> navigationSuccess v then
           Inr (st0\<lparr>consecutiveEmptyPages := Suc (consecutiveEmptyPages st), page := Suc (page st)\<rparr>)
         else if htmlContent v = None \<or> htmlContent v = Some [] then
           Inr (st0\<lparr>consecutiveEmptyPages := Suc (consecutiveEmptyPages st), page := Suc (page st)\<rparr>)
         else
           (let reviewElements = extractReviews j (the (htmlContent v))
            in if reviewElements = [] then
                 (let st1 = st0\<lparr>consecutiveEmptyPages := Suc (consecutiveEmptyPages st)\<rparr>
                  in if hasCaptcha v then
                       (case resolved v of
                          None \<Rightarrow> Inl BrowserError
                        | Some r \<Rightarrow> if r then Inr st1 else Inr (st1\<lparr>page := Suc (page st)\<rparr>))
                     else Inr (st1\<lparr>page := Suc (page st)\<rparr>))
               else
                 (let (st1, pageReviews, reviewsOutsideDateRange) =
                        count_page j reviewElements st0
                  in if reviewsOutsideDateRange > pageReviews \<and> page st > 2
                     then Inr (st1\<lparr>hasMorePages := False\<rparr>)
                     else if pauseOk v then Inr (st1\<lparr>page := Suc (page st)\<rparr>)
                     else Inl BrowserError)))"

text \<open>
  \<open>while (hasMorePages && (maxPages === -1 || page <= maxPages) && consecutiveEmptyPages < N)\<close>,
  with \<open>N\<close> the literal of the source: 3 in \<open>G2Scraper\<close>, 1 in \<open>CapterraScraper\<close>.
\<close>

partial_function (option) browser_loop ::
  "nat \<Rightarrow> (nat \<Rightarrow> visit) \<Rightarrow> job \<Rightarrow> pager \<Rightarrow> (error + pager) option" where
  "browser_loop N env j st =
     (if hasMorePages st \<and> (maxPages j = - 1 \<or> int (page st) \<le> maxPages j)
          \<and> consecutiveEmptyPages st < N then
        (case browser_iteration env j st of
           Inl e \<Rightarrow> Some (Inl e)
         | Inr st' \<Rightarrow> browser_loop N env j st')
      else Some (Inr st))"

text \<open>
  \<open>scrapeReviews\<close>, given the outcome of what precedes the loop (\<open>findProductUrl\<close>, in
  Capterra after \<open>initializeBrowser\<close>): an exception, \<open>null\<close> (then \<open>scrapeReviews\<close>
  throws) or the product URL. The list returned is the field \<open>reviews\<close> of the final
  state.
\<close>

definition g2_scrapeReviews ::
  "(nat \<Rightarrow> visit) \<Rightarrow> job \<Rightarrow> error + string option \<Rightarrow> (error + pager) option" where
  "g2_scrapeReviews env j found =
     (case found of
        Inl e \<Rightarrow> Some (Inl e)
      | Inr None \<Rightarrow> Some (Inl ScrapeError)
      | Inr (Some productUrl) \<Rightarrow> browser_loop 3 env j start_pager)"

definition capterra_scrapeReviews ::
  "(nat \<Rightarrow> visit) \<Rightarrow> job \<Rightarrow> error + string option \<Rightarrow> (error + pager) option" where
  "capterra_scrapeReviews env j found =
     (case found of
        Inl e \<Rightarrow> Some (Inl e)
      | Inr None \<Rightarrow> Some (Inl ScrapeError)
      | Inr (Some productUrl) \<Rightarrow> browser_loop 1 env j start_pager)"

subsection \<open>TrustPilot\<close>

text \<open>A page number printed in decimal, as the template literal prints it.\<close>

definition digit_char :: "nat \<Rightarrow> char" where
  "digit_char d = char_of (of_char CHR ''0'' + d)"

function decimal :: "nat \<Rightarrow> string" where
  "decimal n = (if 10 \<le> n then decimal (n div 10) @ [digit_char (n mod 10)] else [digit_char n])"
  by pat_completeness auto
termination
  by (relation "measure id") auto

text \<open>\<open>page === 1 ? productUrl : `${productUrl}?page=${page}`\<close>\<close>

definition tp_pageUrl :: "string \<Rightarrow> nat \<Rightarrow> string" where
  "tp_pageUrl productUrl p =
     (if p = 1 then productUrl else productUrl @ ''?page='' @ decimal p)"

text \<open>
  The body of the \<open>while\<close> loop of \<open>TrustPilotScraper.scrapeReviews\<close>: the page is
  fetched with \<open>safeRequest\<close> and its default of three attempts, so the state is the
  loop's variables together with the HTTP client. \<open>safeRequest\<close> only returns a response
  whose body it has measured; \<open>cheerio.load\<close> of a missing body is left as a
  \<open>TypeError\<close>.
\<close>

definition tp_iteration ::
  "world \<Rightarrow> job \<Rightarrow> string \<Rightarrow> pager \<times> client \<Rightarrow> error + pager \<times> client" where
  "tp_iteration w j productUrl stc =
     (let (st, c) = stc;
          st0 = st\<lparr>iter := Suc (iter st),
                   visits := visits st @ [(page st, consecutiveEmptyPages st)]\<rparr>;
          (response, c') = safeRequest w (tp_pageUrl productUrl (page st)) 3 c
      in (case response of
            Inl e \<Rightarrow> Inl e
          | Inr None \<Rightarrow>
              Inr (st0\<lparr>consecutiveEmptyPages := Suc (consecutiveEmptyPages st),
                       page := Suc (page st)\<rparr>, c')
          | Inr (Some r) \<Rightarrow>
              (case data r of
                 None \<Rightarrow> Inl TypeError
               | Some d \<Rightarrow>
                   (let reviewElements = extractReviews j d
                    in if reviewElements = [] then
                         Inr (st0\<lparr>consecutiveEmptyPages := Suc (consecutiveEmptyPages st),
                                  page := Suc (page st)\<rparr>, c')
                       else
                         (let (st1, pageReviews, reviewsOutsideDateRange) =
                                count_page j reviewElements st0
                          in if reviewsOutsideDateRange > pageReviews \<and> page st > 2
                             then Inr (st1\<lparr>hasMorePages := False\<rparr>, c')
                             else Inr (st1\<lparr>page := Suc (page st)\<rparr>, c'))))))"

text \<open>
  \<open>while (hasMorePages && (maxPages === -1 || page <= maxPages) && consecutiveEmptyPages < 3)\<close>
\<close>

partial_function (option) tp_loop ::
  "world \<Rightarrow> job \<Rightarrow> string \<Rightarrow> pager \<times> client \<Rightarrow> (error + pager \<times> client) option" where
  "tp_loop w j productUrl stc =
     (if hasMorePages (fst stc) \<and> (maxPages j = - 1 \<or> int (page (fst stc)) \<le> maxPages j)
          \<and> consecutiveEmptyPages (fst stc) < 3 then
        (case tp_iteration w j productUrl stc of
           Inl e \<Rightarrow> Some (Inl e)
         | Inr stc' \<Rightarrow> tp_loop w j productUrl stc')
      else Some (Inr stc))"

text \<open>
  \<open>scrapeReviews\<close>, given the outcome of \<open>findProductUrl\<close> and the client as that call
  left it.
\<close>

definition tp_scrapeReviews ::
  "world \<Rightarrow> job \<Rightarrow> error + string option \<Rightarrow> client \<Rightarrow> (error + pager \<times> client) option" where
  "tp_scrapeReviews w j found c =
     (case found of
        Inl e \<Rightarrow> Some (Inl e)
      | Inr None \<Rightarrow> Some (Inl ScrapeError)
      | Inr (Some productUrl) \<Rightarrow> tp_loop w j productUrl (start_pager, c))"

subsection \<open>What a page holds\<close>

text \<open>
  The extracted items of a page whose date parses into the window, and those whose date
  parses to a day strictly before its start.
\<close>

definition in_window :: "job \<Rightarrow> review option list \<Rightarrow> review list" where
  "in_window j reviewElements =
     filter (\<lambda>r. isDateInRange (parseDate (moment j) (date r)) (startDate j) (endDate j))
       (List.map_filter id reviewElements)"

definition before_window :: "job \<Rightarrow> review option list \<Rightarrow> review list" where
  "before_window j reviewElements =
     filter (\<lambda>r. case parseDate (moment j) (date r) of None \<Rightarrow> False | Some d \<Rightarrow> d < startDate j)
       (List.map_filter id reviewElements)"

text \<open>What a trace shows: the rate-limit waits, and the requests with the agent they carried.\<close>

fun rate_limit_waits :: "event list \<Rightarrow> real list" where
  "rate_limit_waits [] = []"
| "rate_limit_waits (Slept RateLimit d # es) = d # rate_limit_waits es"
| "rate_limit_waits (e # es) = rate_limit_waits es"

fun requests :: "event list \<Rightarrow> (string \<times> string option) list" where
  "requests [] = []"
| "requests (Requested url ua # es) = (url, ua) # requests es"
| "requests (e # es) = requests es"

subsection \<open>Concrete servers\<close>

definition world_429_429_200 :: world where
  "world_429_429_200 =
     \<lparr>random = (\<lambda>i. 1 / 2),
      http = (\<lambda>i. if i < 2 then Rejected (Some 429)
                   else Resolved \<lparr>status = 200, data = Some ''<html></html>''\<rparr>)\<rparr>"

definition world_403 :: world where
  "world_403 = \<lparr>random = (\<lambda>i. 1 / 8), http = (\<lambda>i. Rejected (Some 403))\<rparr>"

definition world_429_404 :: world where
  "world_429_404 =
     \<lparr>random = (\<lambda>i. 1 / 2),
      http = (\<lambda>i. if i = 0 then Rejected (Some 429) else Rejected (Some 404))\<rparr>"

text \<open>The same two rate limits, then a 200 response without a body.\<close>

definition world_429_429_null :: world where
  "world_429_429_null =
     \<lparr>random = (\<lambda>i. 1 / 2),
      http = (\<lambda>i. if i < 2 then Rejected (Some 429)
                   else Resolved \<lparr>status = 200, data = None\<rparr>)\<rparr>"

subsection \<open>Concrete pages\<close>

definition blocked_page :: page_view where
  "blocked_page =
     \<lparr>query = (\<lambda>selector. Inr (selector = ''.g-recaptcha'')), content = Inr [],
      page_url = ''https://www.g2.com/products/slack/reviews''\<rparr>"

definition broken_page :: page_view where
  "broken_page =
     \<lparr>query = (\<lambda>selector. if selector = ''.captcha'' then Inl BrowserError else Inr False),
      content = Inr ''<html>verify you are human</html>'',
      page_url = ''https://www.g2.com/products/slack/reviews''\<rparr>"

definition blocked_polls :: "nat \<Rightarrow> poll" where
  "blocked_polls k =
     \<lparr>clock = 1000 + 2000 * int k, tick = True, view = Some blocked_page, recover = True\<rparr>"

subsection \<open>A running browser\<close>

definition chrome_running :: chrome where
  "chrome_running =
     \<lparr>cdp = (\<lambda>k. Attached (100 + k) [\<lparr>pages = [200 + k], newPage = None\<rparr>]),
      chromePath = Some ''/usr/bin/google-chrome''\<rparr>"

text \<open>
  A machine where no browser answers at first: the first attach is refused, Chrome is
  found and launched, and the second attach gives a connection whose context has no page
  yet, so that one is opened.
\<close>

definition chrome_launched :: chrome where
  "chrome_launched =
     \<lparr>cdp = (\<lambda>k. if k = 0 then Refused
                 else Attached (100 + k) [\<lparr>pages = [], newPage = Some (300 + k)\<rparr>]),
      chromePath = Some ''/usr/bin/google-chrome''\<rparr>"

subsection \<open>The loop tests and the window, named\<close>

text \<open>
  The tests of the \<open>while\<close> loops, as written in \<open>browser_loop\<close> and \<open>tp_loop\<close>, and what
  it is for a review to be dated in the window of a job.
\<close>

definition browser_cond :: "nat \<Rightarrow> job \<Rightarrow> pager \<Rightarrow> bool" where
  "browser_cond N j st \<longleftrightarrow>
     hasMorePages st \<and> (maxPages j = - 1 \<or> int (page st) \<le> maxPages j)
     \<and> consecutiveEmptyPages st < N"

definition tp_cond :: "job \<Rightarrow> pager \<Rightarrow> bool" where
  "tp_cond j st \<longleftrightarrow>
     hasMorePages st \<and> (maxPages j = - 1 \<or> int (page st) \<le> maxPages j)
     \<and> consecutiveEmptyPages st < 3"

definition dated_in_window :: "job \<Rightarrow> review \<Rightarrow> bool" where
  "dated_in_window j r \<longleftrightarrow>
     (\<exists>d. parseDate (moment j) (date r) = Some d \<and> startDate j \<le> d \<and> d \<le> endDate j)"

subsection \<open>A five-page listing, and a listing that never loads\<close>

text \<open>
  A window from 2024-01-01 to 2024-03-31. Pages 1 and 2 of the listing hold two reviews
  each dated 2024-02-10, pages 3 to 5 two reviews each dated 2023-12-05; the same
  listing is served over the browser (\<open>listing5\<close>) and over HTTP (\<open>world5\<close>).
  \<open>third_page\<close> is the state of the loop when it comes to page 3.
\<close>

definition review_in :: review where
  "review_in = \<lparr>title = ''Works well'', date = Some ''2024-02-10'', details = ''5 stars''\<rparr>"

definition review_old :: review where
  "review_old = \<lparr>title = ''Was fine'', date = Some ''2023-12-05'', details = ''4 stars''\<rparr>"

definition job5 :: job where
  "job5 =
     \<lparr>extractReviews =
        (\<lambda>html. if html = ''in'' then [Some review_in, Some review_in]
                else if html = ''old'' then [Some review_old, Some review_old] else []),
      moment =
        (\<lambda>s. if s = ''2024-02-10'' then Some 1707523200000
             else if s = ''2023-12-05'' then Some 1701734400000 else None),
      startDate = 1704067200000, endDate = 1711843200000, maxPages = 15\<rparr>"

definition listing5 :: "nat \<Rightarrow> visit" where
  "listing5 k =
     \<lparr>navigationSuccess = (k < 5), htmlContent = Some (if k < 2 then ''in'' else ''old''),
      hasCaptcha = False, resolved = Some True, pauseOk = True\<rparr>"

definition world5 :: world where
  "world5 =
     \<lparr>random = (\<lambda>i. 1 / 2),
      http = (\<lambda>k. if k < 5
                  then Resolved \<lparr>status = 200, data = Some (if k < 2 then ''in'' else ''old'')\<rparr>
                  else Rejected (Some 404))\<rparr>"

definition third_page :: pager where
  "third_page =
     \<lparr>reviews = [review_in, review_in, review_in, review_in], page = 3, hasMorePages = True,
      consecutiveEmptyPages = 0, iter = 2, visits = [(1, 0), (2, 0)]\<rparr>"

text \<open>A browser whose every navigation fails, and a server that answers 404 to everything.\<close>

definition dead_listing :: "nat \<Rightarrow> visit" where
  "dead_listing k =
     \<lparr>navigationSuccess = False, htmlContent = None, hasCaptcha = False, resolved = None,
      pauseOk = False\<rparr>"

definition world_404 :: world where
  "world_404 = \<lparr>random = (\<lambda>i. 1 / 2), http = (\<lambda>k. Rejected (Some 404))\<rparr>"

section \<open>Properties of the HTTP client\<close>

declare safeRequest_from.simps [simp del] decimal.simps [simp del]

lemma length_userAgents: "length userAgents = 4"
  by (simp add: userAgents_def)

lemma req_ix_sleep [simp]: "req_ix (sleep w k ms s) = req_ix s"
  by (simp add: sleep_def math_random_def Let_def)

lemma userAgent_sleep [simp]: "userAgent (sleep w k ms s) = userAgent s"
  by (simp add: sleep_def math_random_def Let_def)

lemma sleep_Some [simp]:
  "d \<noteq> 0 \<Longrightarrow> sleep w k (Some d) s = s\<lparr>trace := trace s @ [Slept k d]\<rparr>"
  by (simp add: sleep_def)

lemma sleep_None [simp]:
  "sleep w k None s =
     s\<lparr>rnd_ix := Suc (rnd_ix s),
       trace := trace s @ [Slept k (delay s + random w (rnd_ix s) * 1000)]\<rparr>"
  by (simp add: sleep_def math_random_def)

lemma rate_limit_waits_append [simp]:
  "rate_limit_waits (es @ fs) = rate_limit_waits es @ rate_limit_waits fs"
  by (induction es rule: rate_limit_waits.induct) simp_all

lemma requests_append [simp]: "requests (es @ fs) = requests es @ requests fs"
  by (induction es rule: requests.induct) simp_all

text \<open>Under the contract of \<open>Math.random\<close> the index is in range, so an agent is chosen.\<close>

lemma getRandomUserAgent_valid:
  assumes "valid_random w"
  shows "nat \<lfloor>random w (rnd_ix s) * 4\<rfloor> < 4
     \<and> getRandomUserAgent w s =
         (Some (userAgents ! nat \<lfloor>random w (rnd_ix s) * 4\<rfloor>), s\<lparr>rnd_ix := Suc (rnd_ix s)\<rparr>)"
proof -
  let ?r = "random w (rnd_ix s)"
  from assms have r: "0 \<le> ?r" "?r < 1" by (auto simp: valid_random_def)
  then have lo: "0 \<le> \<lfloor>?r * 4\<rfloor>" and "\<lfloor>?r * 4\<rfloor> < 4" by (auto simp: floor_less_iff)
  then have "nat \<lfloor>?r * 4\<rfloor> < 4" by linarith
  with lo show ?thesis
    by (simp add: getRandomUserAgent_def math_random_def length_userAgents Let_def)
qed

lemma on_error_403:
  assumes "valid_random w"
  shows "on_error w m a (Some 403) s =
     (Retry, s\<lparr>rnd_ix := Suc (rnd_ix s),
               userAgent := Some (userAgents ! nat \<lfloor>random w (rnd_ix s) * 4\<rfloor>),
               trace := trace s @ [Slept Forbidden 3000]\<rparr>)"
  using getRandomUserAgent_valid [OF assms, of s] by (simp add: on_error_def)

lemma on_error_cases:
  assumes "valid_random w"
  shows "fst (on_error w m a sc s) = Retry \<or> fst (on_error w m a sc s) = Done (Inr None)"
proof (cases "sc = Some 403")
  case True
  then show ?thesis by (simp add: on_error_403 [OF assms])
next
  case False
  then show ?thesis by (simp add: on_error_def)
qed

lemma attempt_once_cases:
  assumes "valid_random w"
  shows "fst (attempt_once w url m a s) = Retry \<or> fst (attempt_once w url m a s) = Done (Inr None)
     \<or> (\<exists>r. fst (attempt_once w url m a s) = Done (Inr (Some r)) \<and> status r = 200)"
  using on_error_cases [OF assms]
  by (auto simp: attempt_once_def Let_def axios_get_def split: outcome.splits option.splits)

lemma safeRequest_from_cases:
  assumes "valid_random w"
  shows "fst (safeRequest_from w url m a s) = Inr None
     \<or> (\<exists>r. fst (safeRequest_from w url m a s) = Inr (Some r) \<and> status r = 200)"
  using assms
proof (induction w url m a s rule: safeRequest_from.induct)
  case (1 w url maxRetries attempt s)
  note vr = \<open>valid_random w\<close>
  show ?case
  proof (cases "attempt < maxRetries")
    case False
    then show ?thesis by (simp add: safeRequest_from.simps)
  next
    case True
    obtain f s' where st: "attempt_once w url maxRetries attempt s = (f, s')"
      by (cases "attempt_once w url maxRetries attempt s")
    show ?thesis
    proof (cases f)
      case Retry
      with True st 1 show ?thesis
        by (simp add: safeRequest_from.simps [of w url maxRetries attempt])
    next
      case (Done r)
      from attempt_once_cases [OF vr, of url maxRetries attempt s]
      have "r = Inr None \<or> (\<exists>x. r = Inr (Some x) \<and> status x = 200)"
        by (simp add: st Done)
      with Done st True show ?thesis
        by (simp add: safeRequest_from.simps [of w url maxRetries attempt])
    qed
  qed
qed

lemma attempt_once_404:
  assumes "http w (req_ix s) = Rejected (Some 404)"
  shows "attempt_once w url m a s =
     (Done (Inr None),
      s\<lparr>rnd_ix := Suc (rnd_ix s), req_ix := Suc (req_ix s),
        trace := trace s @ [Slept Courtesy (delay s + random w (rnd_ix s) * 1000),
                            Requested url (userAgent s)]\<rparr>)"
  using assms by (simp add: attempt_once_def axios_get_def on_error_def)

lemma attempt_once_429:
  assumes "http w (req_ix s) = Rejected (Some 429)"
  shows "attempt_once w url m a s =
     (Retry,
      s\<lparr>rnd_ix := Suc (rnd_ix s), req_ix := Suc (req_ix s),
        trace := trace s @ [Slept Courtesy (delay s + random w (rnd_ix s) * 1000),
                            Requested url (userAgent s), Slept RateLimit (2 ^ a * 2000)]\<rparr>)"
  using assms by (simp add: attempt_once_def axios_get_def on_error_def)

lemma attempt_once_403:
  assumes "valid_random w" and "http w (req_ix s) = Rejected (Some 403)"
  shows "attempt_once w url m a s =
     (Retry,
      s\<lparr>rnd_ix := Suc (Suc (rnd_ix s)), req_ix := Suc (req_ix s),
        userAgent := Some (userAgents ! nat \<lfloor>random w (Suc (rnd_ix s)) * 4\<rfloor>),
        trace := trace s @ [Slept Courtesy (delay s + random w (rnd_ix s) * 1000),
                            Requested url (userAgent s), Slept Forbidden 3000]\<rparr>)"
  using assms(2) by (simp add: attempt_once_def axios_get_def on_error_403 [OF assms(1)])

lemma attempt_once_200:
  assumes "http w (req_ix s) = Resolved r" and "status r = 200" and "data r \<noteq> None"
  shows "attempt_once w url m a s =
     (Done (Inr (Some r)),
      s\<lparr>rnd_ix := Suc (rnd_ix s), req_ix := Suc (req_ix s),
        trace := trace s @ [Slept Courtesy (delay s + random w (rnd_ix s) * 1000),
                            Requested url (userAgent s)]\<rparr>)"
  using assms by (auto simp add: attempt_once_def axios_get_def split: option.splits)

text \<open>Every attempt sends exactly one request, with the agent held when it starts.\<close>

lemma requests_on_error:
  "requests (trace (snd (on_error w m a sc s))) = requests (trace s)"
  by (simp add: on_error_def getRandomUserAgent_def math_random_def Let_def
      split: option.splits)

lemma requests_attempt_once:
  "requests (trace (snd (attempt_once w url m a s))) = requests (trace s) @ [(url, userAgent s)]"
  by (simp add: attempt_once_def axios_get_def Let_def requests_on_error
      split: outcome.splits option.splits)

lemma valid_random_world_429_429_200: "valid_random world_429_429_200"
  by (simp add: valid_random_def world_429_429_200_def)

lemma valid_random_world_403: "valid_random world_403"
  by (simp add: valid_random_def world_403_def)

subsection \<open>A 404 ends the call\<close>

text \<open>
  C4. Whatever the attempt number and however many retries remain, an attempt that is made
  (\<open>attempt < maxRetries\<close>) and whose request is rejected with status 404 makes
  \<open>safeRequest\<close> return \<open>null\<close> at once: after the courtesy delay and that one request
  nothing more is done, neither a wait nor a further request.
\<close>

theorem safeRequest_404_returns_null_at_once:
  assumes "attempt < maxRetries" and "http w (req_ix s) = Rejected (Some 404)"
  shows "fst (safeRequest_from w url maxRetries attempt s) = Inr None
     \<and> req_ix (snd (safeRequest_from w url maxRetries attempt s)) = Suc (req_ix s)
     \<and> trace (snd (safeRequest_from w url maxRetries attempt s)) =
         trace s @ [Slept Courtesy (delay s + random w (rnd_ix s) * 1000),
                    Requested url (userAgent s)]"
  using assms by (simp add: safeRequest_from.simps [of w url maxRetries attempt] attempt_once_404)

theorem safeRequest_404_returns_null_at_once_witness:
  "(1::nat) < 3
   \<and> http world_429_404 (req_ix ((newClient 2000)\<lparr>req_ix := 1\<rparr>)) = Rejected (Some 404)
   \<and> fst (safeRequest_from world_429_404 ''https://www.trustpilot.com/review/x'' 3 1
            ((newClient 2000)\<lparr>req_ix := 1\<rparr>)) = Inr None
   \<and> req_ix (snd (safeRequest_from world_429_404 ''https://www.trustpilot.com/review/x'' 3 1
            ((newClient 2000)\<lparr>req_ix := 1\<rparr>))) = 2"
proof -
  have h1: "(1::nat) < 3" by simp
  have h2: "http world_429_404 (req_ix ((newClient 2000)\<lparr>req_ix := 1\<rparr>)) = Rejected (Some 404)"
    by (simp add: world_429_404_def)
  from safeRequest_404_returns_null_at_once [OF h1 h2] h2 show ?thesis
    by simp
qed

subsection \<open>Two rate limits, then success\<close>

text \<open>
  C5, as the code has it. When the next three requests are answered 429, 429 and 200, the
  200 response carrying a body, a call with the default three attempts makes exactly two
  rate-limit waits, of \<open>2^0 * 2000\<close> and \<open>2^1 * 2000\<close> milliseconds (the constant 2000 of
  the code, whatever the delay of the client), the second strictly longer than the first,
  sends exactly three requests and returns that 200 response.
\<close>

theorem safeRequest_429_429_200:
  assumes "http w (req_ix s) = Rejected (Some 429)"
    and "http w (req_ix s + 1) = Rejected (Some 429)"
    and "http w (req_ix s + 2) = Resolved r"
    and "status r = 200" and "data r \<noteq> None"
  shows "fst (safeRequest w url 3 s) = Inr (Some r)
     \<and> rate_limit_waits (trace (snd (safeRequest w url 3 s))) =
         rate_limit_waits (trace s) @ [2 ^ 0 * 2000, 2 ^ 1 * 2000]
     \<and> (2 ^ 0 * 2000 :: real) < 2 ^ 1 * 2000
     \<and> length (requests (trace (snd (safeRequest w url 3 s)))) =
         length (requests (trace s)) + 3"
proof -
  obtain s1 where a0: "attempt_once w url 3 0 s = (Retry, s1)"
    and r1: "req_ix s1 = Suc (req_ix s)"
    and t1: "rate_limit_waits (trace s1) = rate_limit_waits (trace s) @ [2 ^ 0 * 2000]"
    and q1: "requests (trace s1) = requests (trace s) @ [(url, userAgent s)]"
    by (simp add: attempt_once_429 [OF assms(1)])
  have h1: "http w (req_ix s1) = Rejected (Some 429)"
    using assms(2) by (simp add: r1)
  obtain s2 where a1: "attempt_once w url 3 (Suc 0) s1 = (Retry, s2)"
    and r2: "req_ix s2 = Suc (Suc (req_ix s))"
    and t2: "rate_limit_waits (trace s2) = rate_limit_waits (trace s1) @ [2 ^ 1 * 2000]"
    and q2: "requests (trace s2) = requests (trace s1) @ [(url, userAgent s1)]"
    by (simp add: attempt_once_429 [OF h1] r1)
  have h2: "http w (req_ix s2) = Resolved r"
    using assms(3) by (simp add: r2)
  obtain s3 where a2: "attempt_once w url 3 (Suc (Suc 0)) s2 = (Done (Inr (Some r)), s3)"
    and t3: "rate_limit_waits (trace s3) = rate_limit_waits (trace s2)"
    and q3: "requests (trace s3) = requests (trace s2) @ [(url, userAgent s2)]"
    by (simp add: attempt_once_200 [OF h2 assms(4,5)])
  have run: "safeRequest w url 3 s = (Inr (Some r), s3)"
    unfolding safeRequest_def
    by (simp add: safeRequest_from.simps [of w url 3 0] safeRequest_from.simps [of w url 3 "Suc 0"]
        safeRequest_from.simps [of w url 3 "Suc (Suc 0)"] a0 a1 a2)
  show ?thesis
    unfolding run by (simp add: t3 t2 t1 q3 q2 q1)
qed

theorem safeRequest_429_429_200_witness:
  "http world_429_429_200 (req_ix (newClient 2500)) = Rejected (Some 429)
   \<and> http world_429_429_200 (req_ix (newClient 2500) + 1) = Rejected (Some 429)
   \<and> http world_429_429_200 (req_ix (newClient 2500) + 2) =
       Resolved \<lparr>status = 200, data = Some ''<html></html>''\<rparr>
   \<and> fst (safeRequest world_429_429_200 ''https://www.trustpilot.com/review/x'' 3 (newClient 2500)) =
       Inr (Some \<lparr>status = 200, data = Some ''<html></html>''\<rparr>)
   \<and> rate_limit_waits (trace (snd (safeRequest world_429_429_200
         ''https://www.trustpilot.com/review/x'' 3 (newClient 2500)))) = [2000, 4000]"
proof -
  have h1: "http world_429_429_200 (req_ix (newClient 2500)) = Rejected (Some 429)"
    and h2: "http world_429_429_200 (req_ix (newClient 2500) + 1) = Rejected (Some 429)"
    and h3: "http world_429_429_200 (req_ix (newClient 2500) + 2) =
       Resolved \<lparr>status = 200, data = Some ''<html></html>''\<rparr>"
    by (simp_all add: world_429_429_200_def newClient_def)
  have h4: "status \<lparr>status = 200, data = Some ''<html></html>''\<rparr> = 200"
    and h5: "data \<lparr>status = 200, data = Some ''<html></html>''\<rparr> \<noteq> None"
    by simp_all
  have "trace (newClient 2500) = []" by (simp add: newClient_def)
  with safeRequest_429_429_200 [OF h1 h2 h3 h4 h5] h1 h2 h3 show ?thesis
    by simp
qed

text \<open>
  The claim as stated fails twice. For a client whose delay is 2500 the two waits are
  still 2000 and 4000 milliseconds, not multiples of the client's delay; and when the 200
  response has no body, the same two waits are followed by \<open>null\<close>, not by the response.
\<close>

theorem safeRequest_429_429_200_fixed_waits_or_null:
  "delay (newClient 2500) = 2500
   \<and> fst (safeRequest world_429_429_200 ''https://www.trustpilot.com/review/x'' 3 (newClient 2500)) =
       Inr (Some \<lparr>status = 200, data = Some ''<html></html>''\<rparr>)
   \<and> rate_limit_waits (trace (snd (safeRequest world_429_429_200
         ''https://www.trustpilot.com/review/x'' 3 (newClient 2500)))) = [2000, 4000]
   \<and> http world_429_429_null 0 = Rejected (Some 429)
   \<and> http world_429_429_null 1 = Rejected (Some 429)
   \<and> http world_429_429_null 2 = Resolved \<lparr>status = 200, data = None\<rparr>
   \<and> fst (safeRequest world_429_429_null ''https://www.trustpilot.com/review/x'' 3 (newClient 2500)) =
       Inr None
   \<and> rate_limit_waits (trace (snd (safeRequest world_429_429_null
         ''https://www.trustpilot.com/review/x'' 3 (newClient 2500)))) = [2000, 4000]"
  unfolding safeRequest_def
  by (simp add: safeRequest_from.simps attempt_once_def axios_get_def on_error_def
      world_429_429_200_def world_429_429_null_def newClient_def Let_def)

subsection \<open>What a 403 does to the user agent\<close>

text \<open>
  C6, as the code has it. On a 403 the client replaces its user agent by the entry of the
  fixed four-entry pool at index \<open>floor(Math.random() * 4)\<close>: a member of the pool chosen
  by a fresh random draw, independent of the agent in use; there is no cycle.
  The choice is stored on the client and is the agent the next attempt sends, in this call
  or a later one.
\<close>

theorem forbidden_picks_random_pool_agent:
  assumes "valid_random w" and "http w (req_ix s) = Rejected (Some 403)"
  shows "fst (attempt_once w url m a s) = Retry
     \<and> nat \<lfloor>random w (Suc (rnd_ix s)) * 4\<rfloor> < length userAgents
     \<and> userAgent (snd (attempt_once w url m a s)) =
         Some (userAgents ! nat \<lfloor>random w (Suc (rnd_ix s)) * 4\<rfloor>)
     \<and> requests (trace (snd (attempt_once w url' m' a' (snd (attempt_once w url m a s))))) =
         requests (trace s) @
           [(url, userAgent s),
            (url', Some (userAgents ! nat \<lfloor>random w (Suc (rnd_ix s)) * 4\<rfloor>))]"
proof -
  have "nat \<lfloor>random w (Suc (rnd_ix s)) * 4\<rfloor> < 4"
    using getRandomUserAgent_valid [OF assms(1), of "s\<lparr>rnd_ix := Suc (rnd_ix s)\<rparr>"] by simp
  then show ?thesis
    by (simp add: requests_attempt_once attempt_once_403 [OF assms] length_userAgents)
qed

theorem forbidden_picks_random_pool_agent_witness:
  "valid_random world_403 \<and> http world_403 (req_ix (newClient 2000)) = Rejected (Some 403)
   \<and> fst (attempt_once world_403 ''https://www.trustpilot.com/review/x'' 3 0 (newClient 2000)) = Retry
   \<and> userAgent (snd (attempt_once world_403 ''https://www.trustpilot.com/review/x'' 3 0
        (newClient 2000))) = Some (userAgents ! 0)"
proof -
  have h: "http world_403 (req_ix (newClient 2000)) = Rejected (Some 403)"
    by (simp add: world_403_def)
  have "nat \<lfloor>random world_403 (Suc (rnd_ix (newClient 2000))) * 4\<rfloor> = 0"
    by (simp add: world_403_def)
  with forbidden_picks_random_pool_agent [OF valid_random_world_403 h] h valid_random_world_403
  show ?thesis by simp
qed

text \<open>
  The claim as stated fails: with the default agent in use and the draws of \<open>world_403\<close>
  (each \<open>1/8\<close>, so index \<open>0\<close>), three 403 responses in a row are all sent with the default
  agent, and it is still the agent in use afterwards: both rotations re-selected it.
\<close>

theorem forbidden_rotation_reselects_agent_in_use:
  "requests (trace (snd (safeRequest world_403 ''https://www.trustpilot.com/review/x'' 3
       (newClient 2000)))) =
     [(''https://www.trustpilot.com/review/x'', Some defaultUserAgent),
      (''https://www.trustpilot.com/review/x'', Some defaultUserAgent),
      (''https://www.trustpilot.com/review/x'', Some defaultUserAgent)]
   \<and> userAgent (snd (safeRequest world_403 ''https://www.trustpilot.com/review/x'' 3
       (newClient 2000))) = userAgent (newClient 2000)"
  unfolding safeRequest_def
  by (simp add: safeRequest_from.simps attempt_once_def axios_get_def on_error_def
      getRandomUserAgent_def math_random_def world_403_def newClient_def userAgents_def
      defaultUserAgent_def Let_def)

subsection \<open>The call never throws and returns a 200 response or null\<close>

text \<open>
  C10. For every URL, every retry bound, every client state and every sequence of
  outcomes of \<open>axios.get\<close>, with \<open>Math.random\<close> in \<open>[0, 1)\<close>, \<open>safeRequest\<close> terminates
  (the model is a total function), lets no exception escape, and returns either \<open>null\<close> or a
  response whose status is exactly 200.
\<close>

theorem safeRequest_returns_200_or_null:
  assumes "valid_random w"
  shows "fst (safeRequest w url maxRetries s) = Inr None
     \<or> (\<exists>r. fst (safeRequest w url maxRetries s) = Inr (Some r) \<and> status r = 200)"
  unfolding safeRequest_def by (rule safeRequest_from_cases [OF assms])

theorem safeRequest_returns_200_or_null_witness:
  "valid_random world_429_404
   \<and> (fst (safeRequest world_429_404 ''https://www.trustpilot.com/review/x'' 3 (newClient 2000)) =
        Inr None
      \<or> (\<exists>r. fst (safeRequest world_429_404 ''https://www.trustpilot.com/review/x'' 3
                 (newClient 2000)) = Inr (Some r) \<and> status r = 200))"
proof -
  have h: "valid_random world_429_404"
    by (simp add: valid_random_def world_429_404_def)
  from safeRequest_returns_200_or_null [OF h] h show ?thesis
    by blast
qed

section \<open>Properties of the challenge detector and of the waiter\<close>

lemma detectCaptcha_total: "\<exists>b. detectCaptcha txt pg = Inr b"
  by (cases "detect_try txt pg") (auto simp: detectCaptcha_def)

lemma detectCaptcha_error: "detect_try txt pg = Inl e \<Longrightarrow> detectCaptcha txt pg = Inr False"
  by (simp add: detectCaptcha_def)

text \<open>
  C9. \<open>detectCaptcha\<close> of either browser-backed scraper never raises: whatever the
  page (also with no page attached), it returns a boolean; and whenever an inspection step
  of its \<open>try\<close> block errors, the answer is \<open>false\<close>, "not blocked".
\<close>

theorem detectCaptcha_fails_open:
  "(\<exists>b. g2_detectCaptcha pg = Inr b) \<and> (\<exists>b. capterra_detectCaptcha pg = Inr b)
   \<and> (detect_try g2_captchaText pg = Inl e \<longrightarrow> g2_detectCaptcha pg = Inr False)
   \<and> (detect_try capterra_captchaText pg = Inl e \<longrightarrow> capterra_detectCaptcha pg = Inr False)"
  by (simp add: g2_detectCaptcha_def capterra_detectCaptcha_def detectCaptcha_total
      detectCaptcha_error)

lemma detect_try_broken: "detect_try txt (Some broken_page) = Inl BrowserError"
  by (simp add: detect_try_def broken_page_def captchaSelectors_def)

theorem detectCaptcha_fails_open_witness:
  "detect_try g2_captchaText (Some broken_page) = Inl BrowserError
   \<and> detect_try capterra_captchaText (Some broken_page) = Inl BrowserError
   \<and> g2_detectCaptcha (Some broken_page) = Inr False
   \<and> capterra_detectCaptcha (Some broken_page) = Inr False"
  using detectCaptcha_fails_open [of "Some broken_page" BrowserError]
  by (simp add: detect_try_broken)

lemma g2_detect_blocked: "g2_detectCaptcha (Some blocked_page) = Inr True"
  by (simp add: g2_detectCaptcha_def detectCaptcha_def detect_try_def blocked_page_def
      captchaSelectors_def)

lemma wait_iteration_not_false: "wait_iteration detect pat p \<noteq> Return (Inr False)"
  by (auto simp: wait_iteration_def split: option.splits if_splits sum.splits)

lemma wait_loop_timeout:
  assumes "wait_loop detect pat maxWaitTime startTime env k0 = Some y"
  shows "k0 \<le> snd y
     \<and> (\<forall>i. k0 \<le> i \<and> i < snd y \<longrightarrow> clock (env i) - startTime < maxWaitTime)
     \<and> (fst y = Inr False \<longrightarrow> maxWaitTime \<le> clock (env (snd y)) - startTime)"
  using assms
proof (induction rule: wait_loop.raw_induct [rotated 1, consumes 1])
  case (1 wl detect pat maxWaitTime startTime env k0 y)
  show ?case
  proof (cases "clock (env k0) - startTime < maxWaitTime")
    case False
    with 1(2) show ?thesis by auto
  next
    case True
    show ?thesis
    proof (cases "wait_iteration detect pat (env k0)")
      case Again
      with True 1(2) have "wl detect pat maxWaitTime startTime env (Suc k0) = Some y"
        by simp
      from 1(1) [OF this] have ih: "Suc k0 \<le> snd y"
        "\<forall>i. Suc k0 \<le> i \<and> i < snd y \<longrightarrow> clock (env i) - startTime < maxWaitTime"
        "fst y = Inr False \<longrightarrow> maxWaitTime \<le> clock (env (snd y)) - startTime"
        by simp_all
      have "clock (env i) - startTime < maxWaitTime" if "k0 \<le> i" "i < snd y" for i
      proof (cases "i = k0")
        case True
        with \<open>clock (env k0) - startTime < maxWaitTime\<close> show ?thesis by simp
      next
        case False
        with that have "Suc k0 \<le> i" by simp
        with ih(2) that show ?thesis by blast
      qed
      with ih(1,3) show ?thesis by simp
    next
      case (Return x)
      with True 1(2) have y: "y = (x, k0)" by simp
      have "x \<noteq> Inr False"
        using Return wait_iteration_not_false [of detect pat "env k0"] by auto
      with y show ?thesis by simp
    qed
  qed
qed


lemma wait_loop_true:
  assumes "wait_loop detect pat maxWaitTime startTime env k0 = Some y"
  shows "fst y = Inr True \<longrightarrow> wait_iteration detect pat (env (snd y)) = Return (Inr True)"
  using assms
proof (induction rule: wait_loop.raw_induct [rotated 1, consumes 1])
  case (1 wl detect pat maxWaitTime startTime env k0 y)
  show ?case
  proof (cases "clock (env k0) - startTime < maxWaitTime")
    case False
    with 1(2) show ?thesis by auto
  next
    case True
    show ?thesis
    proof (cases "wait_iteration detect pat (env k0)")
      case Again
      with True 1(2) have "wl detect pat maxWaitTime startTime env (Suc k0) = Some y"
        by simp
      from 1(1) [OF this] show ?thesis .
    next
      case (Return x)
      with True 1(2) have "y = (x, k0)" by simp
      with Return show ?thesis by simp
    qed
  qed
qed

lemma wait_iteration_blocked:
  assumes "detect (view p) = Inr True"
  shows "wait_iteration detect pat p \<noteq> Return (Inr True)"
proof (cases "view p")
  case None
  then show ?thesis by (simp add: wait_iteration_def)
next
  case (Some pg)
  with assms have "detect (Some pg) = Inr True" by simp
  with Some show ?thesis by (simp add: wait_iteration_def)
qed

lemma wait_iteration_blocked_again:
  assumes "detect (view p) = Inr True" and "tick p" and "view p \<noteq> None"
  shows "wait_iteration detect pat p = Again"
proof -
  from assms(3) obtain pg where pg: "view p = Some pg" by auto
  with assms(1) have "detect (Some pg) = Inr True" by simp
  with pg assms(2) show ?thesis by (simp add: wait_iteration_def)
qed

text \<open>
  The waiter does return: if the polls go through and the clock reaches the budget at the
  \<open>n\<close>-th reading and not before, a blocked page gives \<open>false\<close> at that reading.
\<close>

lemma wait_loop_blocked_returns:
  assumes "\<forall>i. detect (view (env i)) = Inr True"
    and "\<forall>i. k0 \<le> i \<and> i < n \<longrightarrow> tick (env i) \<and> view (env i) \<noteq> None"
    and "\<forall>i. k0 \<le> i \<and> i < n \<longrightarrow> clock (env i) - startTime < maxWaitTime"
    and "maxWaitTime \<le> clock (env n) - startTime" and "k0 \<le> n"
  shows "wait_loop detect pat maxWaitTime startTime env k0 = Some (Inr False, n)"
  using assms(2,3,5)
proof (induction "n - k0" arbitrary: k0)
  case 0
  then have "k0 = n" by simp
  with assms(4) show ?case by (simp add: wait_loop.simps [of _ _ _ _ _ n])
next
  case (Suc d)
  then have lt: "k0 < n" by simp
  with Suc.prems have here: "tick (env k0)" "view (env k0) \<noteq> None"
    "clock (env k0) - startTime < maxWaitTime" by auto
  have "wait_iteration detect pat (env k0) = Again"
    using assms(1) here by (simp add: wait_iteration_blocked_again)
  moreover have "wait_loop detect pat maxWaitTime startTime env (Suc k0) = Some (Inr False, n)"
  proof (rule Suc.hyps(1))
    show "d = n - Suc k0" using Suc.hyps(2) by simp
    show "\<forall>i. Suc k0 \<le> i \<and> i < n \<longrightarrow> tick (env i) \<and> view (env i) \<noteq> None"
      using Suc.prems(1) by auto
    show "\<forall>i. Suc k0 \<le> i \<and> i < n \<longrightarrow> clock (env i) - startTime < maxWaitTime"
      using Suc.prems(2) by auto
    show "Suc k0 \<le> n" using lt by simp
  qed
  ultimately show ?case
    using here(3) by (simp add: wait_loop.simps [of _ _ _ _ _ k0])
qed

text \<open>
  C8. For every budget, expected pattern and sequence of polls on which the detector
  reports blocked, \<open>waitForPageReady\<close> never answers "ready", and when it returns
  \<open>false\<close> the clock reading of its last loop test is at or after the budget
  (\<open>maxWaitTime \<le> Date.now() - startTime\<close>), every earlier reading having been
  before it.
\<close>

theorem waitForPageReady_times_out_only_after_budget:
  assumes "\<forall>k. detect (view (env k)) = Inr True"
    and "waitForPageReady detect expectedUrlPattern maxWaitTime startTime env = Some (r, k)"
  shows "r \<noteq> Inr True
     \<and> (r = Inr False \<longrightarrow> maxWaitTime \<le> clock (env k) - startTime)
     \<and> (\<forall>i<k. clock (env i) - startTime < maxWaitTime)"
proof -
  from assms(2) have run: "wait_loop detect expectedUrlPattern maxWaitTime startTime env 0 = Some (r, k)"
    by (simp add: waitForPageReady_def)
  from wait_loop_true [OF run] wait_iteration_blocked [of detect "env k" expectedUrlPattern] assms(1)
  have "r \<noteq> Inr True" by auto
  with wait_loop_timeout [OF run] show ?thesis by simp
qed

lemma blocked_polls_blocked: "g2_detectCaptcha (view (blocked_polls k)) = Inr True"
  by (simp add: blocked_polls_def g2_detect_blocked)

lemma blocked_polls_run:
  "waitForPageReady g2_detectCaptcha (Some ''/products/'') 5000 1000 blocked_polls =
     Some (Inr False, 3)"
  unfolding waitForPageReady_def
  by (rule wait_loop_blocked_returns) (auto simp: g2_detect_blocked blocked_polls_def)

theorem waitForPageReady_times_out_only_after_budget_witness:
  "(\<forall>k. g2_detectCaptcha (view (blocked_polls k)) = Inr True)
   \<and> waitForPageReady g2_detectCaptcha (Some ''/products/'') 5000 1000 blocked_polls =
       Some (Inr False, 3)
   \<and> (5000::int) \<le> clock (blocked_polls 3) - 1000"
proof -
  have h: "\<forall>k. g2_detectCaptcha (view (blocked_polls k)) = Inr True"
    by (simp add: blocked_polls_blocked)
  from waitForPageReady_times_out_only_after_budget [OF h blocked_polls_run] h blocked_polls_run
  show ?thesis by simp
qed

section \<open>Properties of session acquisition\<close>

lemma connect_True_indep:
  assumes "connectToExistingChrome env sc = (True, s1)" and "cdp_ix sc' = cdp_ix sc"
  shows "connectToExistingChrome env sc' = (True, s1)"
  using assms
  by (auto simp: connectToExistingChrome_def Let_def
      split: attach.splits list.splits option.splits)

lemma connect_False_indep:
  assumes "connectToExistingChrome env sc = (False, s1)" and "cdp_ix sc' = cdp_ix sc"
  shows "\<exists>s1'. connectToExistingChrome env sc' = (False, s1') \<and> cdp_ix s1' = cdp_ix s1"
  using assms
  by (auto simp: connectToExistingChrome_def Let_def
      split: attach.splits list.splits option.splits)

lemma connect_True_session:
  assumes "connectToExistingChrome env sc = (True, s1)"
  shows "this_browser s1 \<noteq> None \<and> this_page s1 \<noteq> None"
  using assms
  by (auto simp: connectToExistingChrome_def Let_def
      split: attach.splits list.splits option.splits)

lemma initializeBrowser_indep:
  assumes "initializeBrowser env sc = (Inr True, s1)" and "cdp_ix sc' = cdp_ix sc"
  shows "initializeBrowser env sc' = (Inr True, s1)"
proof -
  obtain c1 t1 where c1: "connectToExistingChrome env sc = (c1, t1)"
    by (cases "connectToExistingChrome env sc")
  show ?thesis
  proof (cases c1)
    case True
    with c1 assms(1) have "t1 = s1" by (simp add: initializeBrowser_def)
    with True c1 connect_True_indep [OF _ assms(2)] show ?thesis
      by (simp add: initializeBrowser_def)
  next
    case False
    with c1 have "connectToExistingChrome env sc = (False, t1)" by simp
    from connect_False_indep [OF this assms(2)] obtain t1'
      where c1': "connectToExistingChrome env sc' = (False, t1')" and ix: "cdp_ix t1' = cdp_ix t1"
      by blast
    from False c1 assms(1) obtain path where path: "chromePath env = Some path"
      and c2: "connectToExistingChrome env t1 = (True, s1)"
      by (auto simp: initializeBrowser_def split: option.splits prod.splits if_splits)
    from connect_True_indep [OF c2 ix] c1' path show ?thesis
      by (simp add: initializeBrowser_def)
  qed
qed

lemma initializeBrowser_session:
  assumes "initializeBrowser env sc = (Inr True, s1)"
  shows "this_browser s1 \<noteq> None \<and> this_page s1 \<noteq> None"
  using assms connect_True_session
  by (auto simp: initializeBrowser_def split: option.splits prod.splits if_splits)

lemma initializeBrowser_attached:
  assumes "cdp env (cdp_ix sc) = Attached b (ctx # ctxs)" and "pages ctx = pg # pgs"
  shows "initializeBrowser env sc =
     (Inr True, \<lparr>this_browser = Some b, this_page = Some pg, cdp_ix = Suc (cdp_ix sc)\<rparr>)"
  using assms by (simp add: initializeBrowser_def connectToExistingChrome_def)

lemma connect_offered_Some:
  assumes "offered_session (cdp env (cdp_ix sc)) = Some (b, p)"
  shows "connectToExistingChrome env sc =
     (True, \<lparr>this_browser = Some b, this_page = Some p, cdp_ix = Suc (cdp_ix sc)\<rparr>)"
  using assms
  by (auto simp: connectToExistingChrome_def offered_session_def Let_def
      split: attach.splits list.splits option.splits)

lemma connect_offered_None:
  assumes "offered_session (cdp env (cdp_ix sc)) = None"
  shows "fst (connectToExistingChrome env sc) = False
     \<and> cdp_ix (snd (connectToExistingChrome env sc)) = Suc (cdp_ix sc)"
  using assms
  by (auto simp: connectToExistingChrome_def offered_session_def Let_def
      split: attach.splits list.splits option.splits)

lemma initializeBrowser_first:
  assumes "offered_session (cdp env (cdp_ix sc)) = Some (b, p)"
  shows "initializeBrowser env sc =
     (Inr True, \<lparr>this_browser = Some b, this_page = Some p, cdp_ix = Suc (cdp_ix sc)\<rparr>)"
  by (simp add: initializeBrowser_def connect_offered_Some [OF assms])

lemma initializeBrowser_second:
  assumes "offered_session (cdp env (cdp_ix sc)) = None"
    and "fst (initializeBrowser env sc) = Inr True"
  shows "chromePath env \<noteq> None
     \<and> (\<exists>b p. offered_session (cdp env (Suc (cdp_ix sc))) = Some (b, p)
          \<and> snd (initializeBrowser env sc) =
              \<lparr>this_browser = Some b, this_page = Some p, cdp_ix = Suc (Suc (cdp_ix sc))\<rparr>)"
proof -
  obtain t1 where c1: "connectToExistingChrome env sc = (False, t1)" and ix: "cdp_ix t1 = Suc (cdp_ix sc)"
    using connect_offered_None [OF assms(1)] by (cases "connectToExistingChrome env sc") auto
  from assms(2) c1 obtain path where path: "chromePath env = Some path"
    by (auto simp: initializeBrowser_def split: option.splits)
  show ?thesis
  proof (cases "offered_session (cdp env (Suc (cdp_ix sc)))")
    case None
    then have "fst (connectToExistingChrome env t1) = False"
      using connect_offered_None [of env t1] ix by simp
    with assms(2) c1 path show ?thesis
      by (auto simp: initializeBrowser_def split: prod.splits)
  next
    case (Some bp)
    obtain b p where bp: "bp = (b, p)" by (cases bp)
    with Some ix have "offered_session (cdp env (cdp_ix t1)) = Some (b, p)" by simp
    from connect_offered_Some [OF this] c1 path Some bp ix show ?thesis
      by (simp add: initializeBrowser_def)
  qed
qed

text \<open>
  When the call succeeds: exactly when the first attach offers a session, or Chrome is
  found and the second attach offers one.
\<close>

lemma initializeBrowser_success_iff:
  "fst (initializeBrowser env sc) = Inr True \<longleftrightarrow>
     offered_session (cdp env (cdp_ix sc)) \<noteq> None
     \<or> chromePath env \<noteq> None \<and> offered_session (cdp env (Suc (cdp_ix sc))) \<noteq> None"
proof (cases "offered_session (cdp env (cdp_ix sc))")
  case (Some bp)
  obtain b p where "bp = (b, p)" by (cases bp)
  with Some initializeBrowser_first [of env sc b p] show ?thesis by simp
next
  case None
  obtain t1 where c1: "connectToExistingChrome env sc = (False, t1)" and ix: "cdp_ix t1 = Suc (cdp_ix sc)"
    using connect_offered_None [OF None] by (cases "connectToExistingChrome env sc") auto
  show ?thesis
  proof (cases "chromePath env")
    case cn: None
    with c1 None show ?thesis by (simp add: initializeBrowser_def)
  next
    case (Some path)
    show ?thesis
    proof (cases "offered_session (cdp env (Suc (cdp_ix sc)))")
      case on: None
      then have "fst (connectToExistingChrome env t1) = False"
        using connect_offered_None [of env t1] ix by simp
      with c1 Some None on show ?thesis
        by (auto simp: initializeBrowser_def split: prod.splits)
    next
      case os: (Some bp)
      obtain b p where "bp = (b, p)" by (cases bp)
      with os ix have "offered_session (cdp env (cdp_ix t1)) = Some (b, p)" by simp
      from connect_offered_Some [OF this] c1 Some None os show ?thesis
        by (simp add: initializeBrowser_def)
    qed
  qed
qed

text \<open>
  C7, as the code has it. \<open>initializeBrowser\<close> has no test for a session already held:
  every call attaches anew. When it succeeds, the scraper's browser and page are exactly
  the session offered by the latest successful attach: that of the first attach when it
  offers one (the connection and the first page of its first context, or the page newly
  opened when the context has none), otherwise, Chrome having been found and launched, that
  of the second attach. The outcome is the same whatever browser and page the scraper held
  before.
\<close>

theorem initializeBrowser_replaces_session:
  assumes "fst (initializeBrowser env sc) = Inr True"
  shows "initializeBrowser env (sc\<lparr>this_browser := b', this_page := p'\<rparr>) = initializeBrowser env sc
     \<and> this_browser (snd (initializeBrowser env sc)) \<noteq> None
     \<and> this_page (snd (initializeBrowser env sc)) \<noteq> None
     \<and> (\<forall>b ctx ctxs pg pgs. cdp env (cdp_ix sc) = Attached b (ctx # ctxs) \<and> pages ctx = pg # pgs \<longrightarrow>
           this_browser (snd (initializeBrowser env sc)) = Some b
           \<and> this_page (snd (initializeBrowser env sc)) = Some pg)
     \<and> (\<forall>b p. offered_session (cdp env (cdp_ix sc)) = Some (b, p) \<longrightarrow>
           snd (initializeBrowser env sc) =
             \<lparr>this_browser = Some b, this_page = Some p, cdp_ix = Suc (cdp_ix sc)\<rparr>)
     \<and> (offered_session (cdp env (cdp_ix sc)) = None \<longrightarrow>
           chromePath env \<noteq> None
           \<and> (\<exists>b p. offered_session (cdp env (Suc (cdp_ix sc))) = Some (b, p)
                \<and> snd (initializeBrowser env sc) =
                    \<lparr>this_browser = Some b, this_page = Some p,
                       cdp_ix = Suc (Suc (cdp_ix sc))\<rparr>))"
proof -
  obtain s1 where run: "initializeBrowser env sc = (Inr True, s1)"
    using assms by (cases "initializeBrowser env sc") simp
  have a: "initializeBrowser env (sc\<lparr>this_browser := b', this_page := p'\<rparr>) = initializeBrowser env sc"
    using initializeBrowser_indep [OF run, of "sc\<lparr>this_browser := b', this_page := p'\<rparr>"] run
    by simp
  have b: "this_browser (snd (initializeBrowser env sc)) \<noteq> None
     \<and> this_page (snd (initializeBrowser env sc)) \<noteq> None"
    using initializeBrowser_session [OF run] run by simp
  have c: "this_browser (snd (initializeBrowser env sc)) = Some b
      \<and> this_page (snd (initializeBrowser env sc)) = Some pg"
    if "cdp env (cdp_ix sc) = Attached b (ctx # ctxs)" "pages ctx = pg # pgs" for b ctx ctxs pg pgs
    using initializeBrowser_attached [OF that] by simp
  have d: "snd (initializeBrowser env sc) =
      \<lparr>this_browser = Some b, this_page = Some p, cdp_ix = Suc (cdp_ix sc)\<rparr>"
    if "offered_session (cdp env (cdp_ix sc)) = Some (b, p)" for b p
    using initializeBrowser_first [OF that] by simp
  have e: "chromePath env \<noteq> None
     \<and> (\<exists>b p. offered_session (cdp env (Suc (cdp_ix sc))) = Some (b, p)
          \<and> snd (initializeBrowser env sc) =
              \<lparr>this_browser = Some b, this_page = Some p, cdp_ix = Suc (Suc (cdp_ix sc))\<rparr>)"
    if "offered_session (cdp env (cdp_ix sc)) = None"
    using initializeBrowser_second [OF that assms] .
  from a b c d e show ?thesis by blast
qed

theorem initializeBrowser_replaces_session_witness:
  "fst (initializeBrowser chrome_running newScraper) = Inr True
   \<and> offered_session (cdp chrome_running (cdp_ix newScraper)) = Some (100, 200)
   \<and> initializeBrowser chrome_running (newScraper\<lparr>this_browser := Some 7, this_page := Some 8\<rparr>) =
       initializeBrowser chrome_running newScraper
   \<and> snd (initializeBrowser chrome_running newScraper) =
       \<lparr>this_browser = Some 100, this_page = Some 200, cdp_ix = 1\<rparr>
   \<and> fst (initializeBrowser chrome_launched \<lparr>this_browser = Some 7, this_page = Some 8, cdp_ix = 0\<rparr>)
       = Inr True
   \<and> offered_session (cdp chrome_launched 0) = None
   \<and> offered_session (cdp chrome_launched 1) = Some (101, 301)
   \<and> snd (initializeBrowser chrome_launched \<lparr>this_browser = Some 7, this_page = Some 8, cdp_ix = 0\<rparr>)
       = \<lparr>this_browser = Some 101, this_page = Some 301, cdp_ix = 2\<rparr>"
proof -
  let ?held = "\<lparr>this_browser = Some 7, this_page = Some 8, cdp_ix = 0\<rparr>"
  have h: "fst (initializeBrowser chrome_running newScraper) = Inr True"
    by (simp add: initializeBrowser_def connectToExistingChrome_def chrome_running_def
        newScraper_def)
  have o: "offered_session (cdp chrome_running (cdp_ix newScraper)) = Some (100, 200)"
    by (simp add: offered_session_def chrome_running_def newScraper_def)
  have h': "fst (initializeBrowser chrome_launched ?held) = Inr True"
    by (simp add: initializeBrowser_def connectToExistingChrome_def chrome_launched_def)
  have o0: "offered_session (cdp chrome_launched (cdp_ix ?held)) = None"
    and o1: "offered_session (cdp chrome_launched (Suc (cdp_ix ?held))) = Some (101, 301)"
    by (simp_all add: offered_session_def chrome_launched_def)
  from initializeBrowser_replaces_session [OF h, where b' = "Some 7" and p' = "Some 8"] o
  have r1: "initializeBrowser chrome_running (newScraper\<lparr>this_browser := Some 7, this_page := Some 8\<rparr>) =
       initializeBrowser chrome_running newScraper"
    and r2: "snd (initializeBrowser chrome_running newScraper) =
       \<lparr>this_browser = Some 100, this_page = Some 200, cdp_ix = Suc (cdp_ix newScraper)\<rparr>"
    by blast+
  from initializeBrowser_replaces_session [OF h', where b' = None and p' = None] o0 o1
  have r3: "snd (initializeBrowser chrome_launched ?held) =
       \<lparr>this_browser = Some 101, this_page = Some 301, cdp_ix = Suc (Suc (cdp_ix ?held))\<rparr>"
    by auto
  from h o r1 r2 h' o0 o1 r3 show ?thesis
    by (simp add: newScraper_def)
qed

text \<open>
  The claim as stated fails: with a browser that hands out a new connection object and
  page object on each attach, a second acquisition on a scraper that holds a session
  replaces both, and the two acquisitions that open \<open>CapterraScraper.scrapeReviews\<close>
  end with the second session, not the first.
\<close>

theorem second_acquisition_replaces_session:
  "initializeBrowser chrome_running newScraper =
     (Inr True, \<lparr>this_browser = Some 100, this_page = Some 200, cdp_ix = 1\<rparr>)
   \<and> initializeBrowser chrome_running \<lparr>this_browser = Some 100, this_page = Some 200, cdp_ix = 1\<rparr> =
     (Inr True, \<lparr>this_browser = Some 101, this_page = Some 201, cdp_ix = 2\<rparr>)
   \<and> capterra_acquire chrome_running newScraper =
     (Inr True, \<lparr>this_browser = Some 101, this_page = Some 201, cdp_ix = 2\<rparr>)"
  by (simp add: capterra_acquire_def initializeBrowser_def connectToExistingChrome_def
      chrome_running_def newScraper_def)

section \<open>Properties of pagination\<close>

lemma isDateInRange_iff:
  "isDateInRange (parseDate (moment j) (date r)) (startDate j) (endDate j) \<longleftrightarrow> dated_in_window j r"
  by (auto simp: isDateInRange_def dated_in_window_def split: option.splits)

lemma in_window_Nil [simp]: "in_window j [] = []"
  by (simp add: in_window_def List.map_filter_simps)

lemma before_window_Nil [simp]: "before_window j [] = []"
  by (simp add: before_window_def List.map_filter_simps)

lemma in_window_Cons:
  "in_window j (x # xs) =
     (case x of None \<Rightarrow> in_window j xs
      | Some r \<Rightarrow> if isDateInRange (parseDate (moment j) (date r)) (startDate j) (endDate j)
                  then r # in_window j xs else in_window j xs)"
  by (simp add: in_window_def List.map_filter_simps split: option.splits)

lemma before_window_Cons:
  "before_window j (x # xs) =
     (case x of None \<Rightarrow> before_window j xs
      | Some r \<Rightarrow> if (case parseDate (moment j) (date r) of None \<Rightarrow> False | Some d \<Rightarrow> d < startDate j)
                  then r # before_window j xs else before_window j xs)"
  by (simp add: before_window_def List.map_filter_simps split: option.splits)

lemma each_review_eq:
  "each_review j els (revs, pageReviews, outside) =
     (revs @ in_window j els, pageReviews + length (in_window j els),
      outside + length (before_window j els))"
proof (induction els arbitrary: revs pageReviews outside)
  case Nil
  show ?case by simp
next
  case (Cons x xs)
  show ?case
  proof (cases x)
    case None
    then show ?thesis by (simp add: Cons.IH in_window_Cons before_window_Cons)
  next
    case (Some r)
    show ?thesis
    proof (cases "parseDate (moment j) (date r)")
      case None
      with Some show ?thesis
        by (simp add: Cons.IH in_window_Cons before_window_Cons isDateInRange_def)
    next
      case (Some d)
      with \<open>x = Some r\<close> show ?thesis
        by (auto simp add: Cons.IH in_window_Cons before_window_Cons isDateInRange_def Let_def)
    qed
  qed
qed

lemma count_page_eq:
  "count_page j els st =
     (st\<lparr>consecutiveEmptyPages := 0, reviews := reviews st @ in_window j els\<rparr>,
      length (in_window j els), length (before_window j els))"
  by (simp add: count_page_def each_review_eq)

lemma in_window_dated: "r \<in> set (in_window j els) \<Longrightarrow> dated_in_window j r"
  by (simp add: in_window_def isDateInRange_iff)

lemma browser_loop_unfold:
  "browser_loop N env j st =
     (if browser_cond N j st then
        (case browser_iteration env j st of
           Inl e \<Rightarrow> Some (Inl e)
         | Inr st' \<Rightarrow> browser_loop N env j st')
      else Some (Inr st))"
  by (subst browser_loop.simps) (simp add: browser_cond_def)

lemma browser_loop_invariant:
  assumes "browser_loop N env j st = Some y" and "I st"
    and "\<And>s s'. I s \<Longrightarrow> browser_cond N j s \<Longrightarrow> browser_iteration env j s = Inr s' \<Longrightarrow> I s'"
  shows "\<forall>st'. y = Inr st' \<longrightarrow> I st' \<and> \<not> browser_cond N j st'"
  using assms
proof (induction rule: browser_loop.raw_induct [rotated 1, consumes 1])
  case (1 loop N env j st y)
  show ?case
  proof (cases "browser_cond N j st")
    case False
    with 1(2,3) show ?thesis by (auto simp: browser_cond_def)
  next
    case True
    show ?thesis
    proof (cases "browser_iteration env j st")
      case (Inl e)
      with True 1(2) show ?thesis by (auto simp: browser_cond_def)
    next
      case (Inr s')
      with True 1(2) have run: "loop N env j s' = Some y" by (auto simp: browser_cond_def)
      have "I s'" using 1(4) [OF 1(3) True Inr] .
      from 1(1) [OF run this 1(4)] show ?thesis by simp
    qed
  qed
qed

lemma tp_loop_unfold:
  "tp_loop w j productUrl stc =
     (if tp_cond j (fst stc) then
        (case tp_iteration w j productUrl stc of
           Inl e \<Rightarrow> Some (Inl e)
         | Inr stc' \<Rightarrow> tp_loop w j productUrl stc')
      else Some (Inr stc))"
  by (subst tp_loop.simps) (simp add: tp_cond_def)

lemma tp_loop_invariant:
  assumes "tp_loop w j productUrl stc = Some y" and "I stc"
    and "\<And>s s'. I s \<Longrightarrow> tp_cond j (fst s) \<Longrightarrow> tp_iteration w j productUrl s = Inr s' \<Longrightarrow> I s'"
  shows "\<forall>stc'. y = Inr stc' \<longrightarrow> I stc' \<and> \<not> tp_cond j (fst stc')"
  using assms
proof (induction rule: tp_loop.raw_induct [rotated 1, consumes 1])
  case (1 loop w j productUrl stc y)
  show ?case
  proof (cases "tp_cond j (fst stc)")
    case False
    with 1(2,3) show ?thesis by (auto simp: tp_cond_def)
  next
    case True
    show ?thesis
    proof (cases "tp_iteration w j productUrl stc")
      case (Inl e)
      with True 1(2) show ?thesis by (auto simp: tp_cond_def)
    next
      case (Inr s')
      with True 1(2) have run: "loop w j productUrl s' = Some y" by (auto simp: tp_cond_def)
      have "I s'" using 1(4) [OF 1(3) True Inr] .
      from 1(1) [OF run this 1(4)] show ?thesis by simp
    qed
  qed
qed

lemma browser_iteration_visits:
  assumes "browser_iteration env j st = Inr st'"
  shows "visits st' = visits st @ [(page st, consecutiveEmptyPages st)]"
  using assms
  by (auto simp: browser_iteration_def Let_def count_page_eq split: if_splits option.splits)

lemma browser_iteration_reviews:
  assumes "browser_iteration env j st = Inr st'"
  shows "set (reviews st') \<subseteq> set (reviews st) \<union> {r. dated_in_window j r}"
  using assms
  by (auto simp: browser_iteration_def Let_def count_page_eq in_window_dated
      split: if_splits option.splits)

lemma tp_iteration_visits:
  assumes "tp_iteration w j productUrl (st, c) = Inr (st', c')"
  shows "visits st' = visits st @ [(page st, consecutiveEmptyPages st)]"
  using assms
  by (auto simp: tp_iteration_def Let_def count_page_eq
      split: if_splits option.splits prod.splits sum.splits)

lemma tp_iteration_reviews:
  assumes "tp_iteration w j productUrl (st, c) = Inr (st', c')"
  shows "set (reviews st') \<subseteq> set (reviews st) \<union> {r. dated_in_window j r}"
  using assms
  by (auto simp: tp_iteration_def Let_def count_page_eq in_window_dated
      split: if_splits option.splits prod.splits sum.splits)

lemma browser_loop_reviews:
  assumes "browser_loop N env j st = Some (Inr st')" and "\<forall>r\<in>set (reviews st). dated_in_window j r"
  shows "\<forall>r\<in>set (reviews st'). dated_in_window j r"
proof -
  let ?I = "\<lambda>s. \<forall>r\<in>set (reviews s). dated_in_window j r"
  have step: "?I s'" if "?I s" "browser_cond N j s" "browser_iteration env j s = Inr s'" for s s'
    using that browser_iteration_reviews [of env j s s'] by blast
  from browser_loop_invariant [of N env j st "Inr st'" ?I, OF assms(1) assms(2) step]
  show ?thesis by simp
qed

lemma browser_loop_visits:
  assumes "browser_loop N env j st = Some (Inr st')" and "\<forall>(p, c)\<in>set (visits st). c < N"
  shows "\<forall>(p, c)\<in>set (visits st'). c < N"
proof -
  let ?I = "\<lambda>s. \<forall>(p, c)\<in>set (visits s). c < N"
  have step: "?I s'" if "?I s" "browser_cond N j s" "browser_iteration env j s = Inr s'" for s s'
    using that browser_iteration_visits [of env j s s'] by (auto simp: browser_cond_def)
  from browser_loop_invariant [of N env j st "Inr st'" ?I, OF assms(1) assms(2) step]
  show ?thesis by simp
qed

lemma tp_loop_reviews:
  assumes "tp_loop w j productUrl (st, c) = Some (Inr (st', c'))"
    and "\<forall>r\<in>set (reviews st). dated_in_window j r"
  shows "\<forall>r\<in>set (reviews st'). dated_in_window j r"
proof -
  let ?I = "\<lambda>s :: pager \<times> client. \<forall>r\<in>set (reviews (fst s)). dated_in_window j r"
  have init: "?I (st, c)" using assms(2) by simp
  have step: "?I s'" if "?I s" "tp_cond j (fst s)" "tp_iteration w j productUrl s = Inr s'" for s s'
    using that tp_iteration_reviews [of w j productUrl "fst s" "snd s" "fst s'" "snd s'"] by auto
  from tp_loop_invariant [of w j productUrl "(st, c)" "Inr (st', c')" ?I, OF assms(1) init step]
  show ?thesis by simp
qed

lemma tp_loop_visits:
  assumes "tp_loop w j productUrl (st, c) = Some (Inr (st', c'))"
    and "\<forall>(p, n)\<in>set (visits st). n < 3"
  shows "\<forall>(p, n)\<in>set (visits st'). n < 3"
proof -
  let ?I = "\<lambda>s :: pager \<times> client. \<forall>(p, n)\<in>set (visits (fst s)). n < 3"
  have init: "?I (st, c)" using assms(2) by simp
  have step: "?I s'" if "?I s" "tp_cond j (fst s)" "tp_iteration w j productUrl s = Inr s'" for s s'
    using that tp_iteration_visits [of w j productUrl "fst s" "snd s" "fst s'" "snd s'"]
    by (auto simp: tp_cond_def)
  from tp_loop_invariant [of w j productUrl "(st, c)" "Inr (st', c')" ?I, OF assms(1) init step]
  show ?thesis by simp
qed

lemma before_nonempty:
  assumes "length (in_window j els) < length (before_window j els)"
  shows "els \<noteq> []"
  using assms by auto

lemma browser_loop_early_stop:
  assumes "browser_cond N j st"
    and "navigationSuccess (env (iter st))"
    and "htmlContent (env (iter st)) = Some html" and "html \<noteq> []"
    and "2 < page st"
    and "length (in_window j (extractReviews j html)) < length (before_window j (extractReviews j html))"
  shows "browser_loop N env j st =
     Some (Inr (st\<lparr>reviews := reviews st @ in_window j (extractReviews j html),
                   hasMorePages := False, consecutiveEmptyPages := 0, iter := Suc (iter st),
                   visits := visits st @ [(page st, consecutiveEmptyPages st)]\<rparr>))"
proof -
  let ?st' = "st\<lparr>reviews := reviews st @ in_window j (extractReviews j html),
                   hasMorePages := False, consecutiveEmptyPages := 0, iter := Suc (iter st),
                   visits := visits st @ [(page st, consecutiveEmptyPages st)]\<rparr>"
  have ne: "extractReviews j html \<noteq> []" using before_nonempty [OF assms(6)] .
  have it: "browser_iteration env j st = Inr ?st'"
    using assms(2-6) ne by (simp add: browser_iteration_def Let_def count_page_eq)
  have stop: "\<not> browser_cond N j ?st'" by (simp add: browser_cond_def)
  show ?thesis
    by (subst browser_loop_unfold, simp add: assms(1) it, subst browser_loop_unfold, simp add: stop)
qed

lemma tp_loop_early_stop:
  assumes "tp_cond j st"
    and "safeRequest w (tp_pageUrl productUrl (page st)) 3 c = (Inr (Some r), c')"
    and "data r = Some html"
    and "2 < page st"
    and "length (in_window j (extractReviews j html)) < length (before_window j (extractReviews j html))"
  shows "tp_loop w j productUrl (st, c) =
     Some (Inr (st\<lparr>reviews := reviews st @ in_window j (extractReviews j html),
                   hasMorePages := False, consecutiveEmptyPages := 0, iter := Suc (iter st),
                   visits := visits st @ [(page st, consecutiveEmptyPages st)]\<rparr>, c'))"
proof -
  let ?st' = "st\<lparr>reviews := reviews st @ in_window j (extractReviews j html),
                   hasMorePages := False, consecutiveEmptyPages := 0, iter := Suc (iter st),
                   visits := visits st @ [(page st, consecutiveEmptyPages st)]\<rparr>"
  have ne: "extractReviews j html \<noteq> []" using before_nonempty [OF assms(5)] .
  have it: "tp_iteration w j productUrl (st, c) = Inr (?st', c')"
    using assms(2-5) ne by (simp add: tp_iteration_def Let_def count_page_eq)
  have stop: "\<not> tp_cond j ?st'" by (simp add: tp_cond_def)
  show ?thesis
    by (subst tp_loop_unfold, simp add: assms(1) it, subst tp_loop_unfold, simp add: stop)
qed

lemma job5_in [simp]:
  "in_window job5 [Some review_in, Some review_in] = [review_in, review_in]"
  "before_window job5 [Some review_in, Some review_in] = []"
  "in_window job5 [Some review_old, Some review_old] = []"
  "before_window job5 [Some review_old, Some review_old] = [review_old, review_old]"
  by (simp_all add: in_window_Cons before_window_Cons job5_def review_in_def review_old_def
      parseDate_def isDateInRange_def)

lemma browser_loop_advance:
  assumes "browser_cond N j st"
    and "navigationSuccess (env (iter st))"
    and "htmlContent (env (iter st)) = Some html" and "html \<noteq> []"
    and "extractReviews j html \<noteq> []"
    and "\<not> (length (in_window j (extractReviews j html)) < length (before_window j (extractReviews j html))
           \<and> 2 < page st)"
    and "pauseOk (env (iter st))"
  shows "browser_loop N env j st =
     browser_loop N env j
       (st\<lparr>reviews := reviews st @ in_window j (extractReviews j html),
           page := Suc (page st), consecutiveEmptyPages := 0, iter := Suc (iter st),
           visits := visits st @ [(page st, consecutiveEmptyPages st)]\<rparr>)"
proof -
  have "browser_iteration env j st =
     Inr (st\<lparr>reviews := reviews st @ in_window j (extractReviews j html),
           page := Suc (page st), consecutiveEmptyPages := 0, iter := Suc (iter st),
           visits := visits st @ [(page st, consecutiveEmptyPages st)]\<rparr>)"
    using assms(2-7) by (auto simp add: browser_iteration_def Let_def count_page_eq)
  then show ?thesis
    by (subst browser_loop_unfold) (simp add: assms(1))
qed

lemma browser_loop_navigation_failed:
  assumes "browser_cond N j st" and "\<not> navigationSuccess (env (iter st))"
  shows "browser_loop N env j st =
     browser_loop N env j
       (st\<lparr>page := Suc (page st), consecutiveEmptyPages := Suc (consecutiveEmptyPages st),
           iter := Suc (iter st),
           visits := visits st @ [(page st, consecutiveEmptyPages st)]\<rparr>)"
proof -
  have "browser_iteration env j st =
     Inr (st\<lparr>page := Suc (page st), consecutiveEmptyPages := Suc (consecutiveEmptyPages st),
           iter := Suc (iter st),
           visits := visits st @ [(page st, consecutiveEmptyPages st)]\<rparr>)"
    using assms(2) by (simp add: browser_iteration_def Let_def)
  then show ?thesis
    by (subst browser_loop_unfold) (simp add: assms(1))
qed

lemma browser_loop_stopped:
  assumes "\<not> browser_cond N j st"
  shows "browser_loop N env j st = Some (Inr st)"
  by (subst browser_loop_unfold) (simp add: assms)

lemma job5_fields [simp]:
  "extractReviews job5 ''in'' = [Some review_in, Some review_in]"
  "extractReviews job5 ''old'' = [Some review_old, Some review_old]"
  "maxPages job5 = 15"
  by (simp_all add: job5_def)

lemma listing5_fields [simp]:
  "navigationSuccess (listing5 k) = (k < 5)"
  "htmlContent (listing5 k) = Some (if k < 2 then ''in'' else ''old'')"
  "pauseOk (listing5 k)"
  by (simp_all add: listing5_def)

lemma browser_listing5:
  "browser_loop N listing5 job5 start_pager =
     (if N = 0 then Some (Inr start_pager)
      else Some (Inr \<lparr>reviews = [review_in, review_in, review_in, review_in], page = 3,
                hasMorePages = False, consecutiveEmptyPages = 0, iter = 3,
                visits = [(1, 0), (2, 0), (3, 0)]\<rparr>))"
proof (cases "N = 0")
  case True
  then show ?thesis
    by (simp add: browser_loop_stopped browser_cond_def)
next
  case False
  let ?s1 = "\<lparr>reviews = [review_in, review_in], page = 2, hasMorePages = True,
              consecutiveEmptyPages = 0, iter = 1, visits = [(1, 0)]\<rparr>"
  let ?s2 = "\<lparr>reviews = [review_in, review_in, review_in, review_in], page = 3,
              hasMorePages = True, consecutiveEmptyPages = 0, iter = 2,
              visits = [(1, 0), (2, 0)]\<rparr>"
  have "browser_loop N listing5 job5 start_pager = browser_loop N listing5 job5 ?s1"
    using False
    by (subst browser_loop_advance [where html = "''in''"])
      (simp_all add: browser_cond_def start_pager_def eval_nat_numeral)
  also have "\<dots> = browser_loop N listing5 job5 ?s2"
    using False
    by (subst browser_loop_advance [where html = "''in''"]) (simp_all add: browser_cond_def eval_nat_numeral)
  also have "\<dots> = Some (Inr \<lparr>reviews = [review_in, review_in, review_in, review_in], page = 3,
                hasMorePages = False, consecutiveEmptyPages = 0, iter = 3,
                visits = [(1, 0), (2, 0), (3, 0)]\<rparr>)"
    using False
    by (subst browser_loop_early_stop [where html = "''old''"]) (simp_all add: browser_cond_def eval_nat_numeral)
  finally show ?thesis using False by simp
qed

lemma browser_dead_listing:
  assumes "maxPages j = - 1 \<or> 3 \<le> maxPages j"
  shows "browser_loop 3 dead_listing j start_pager =
     Some (Inr \<lparr>reviews = [], page = 4, hasMorePages = True, consecutiveEmptyPages = 3,
                iter = 3, visits = [(1, 0), (2, 1), (3, 2)]\<rparr>)"
proof -
  let ?s1 = "\<lparr>reviews = [], page = 2, hasMorePages = True, consecutiveEmptyPages = 1,
              iter = 1, visits = [(1, 0)]\<rparr>"
  let ?s2 = "\<lparr>reviews = [], page = 3, hasMorePages = True, consecutiveEmptyPages = 2,
              iter = 2, visits = [(1, 0), (2, 1)]\<rparr>"
  let ?s3 = "\<lparr>reviews = [], page = 4, hasMorePages = True, consecutiveEmptyPages = 3,
              iter = 3, visits = [(1, 0), (2, 1), (3, 2)]\<rparr>"
  have "browser_loop 3 dead_listing j start_pager = browser_loop 3 dead_listing j ?s1"
    using assms
    by (subst browser_loop_navigation_failed)
      (auto simp add: browser_cond_def start_pager_def dead_listing_def eval_nat_numeral)
  also have "\<dots> = browser_loop 3 dead_listing j ?s2"
    using assms
    by (subst browser_loop_navigation_failed)
      (auto simp add: browser_cond_def dead_listing_def eval_nat_numeral)
  also have "\<dots> = browser_loop 3 dead_listing j ?s3"
    using assms
    by (subst browser_loop_navigation_failed)
      (auto simp add: browser_cond_def dead_listing_def eval_nat_numeral)
  also have "\<dots> = Some (Inr ?s3)"
    by (rule browser_loop_stopped) (simp add: browser_cond_def)
  finally show ?thesis .
qed

lemma browser_dead_listing_1:
  assumes "maxPages j = - 1 \<or> 1 \<le> maxPages j"
  shows "browser_loop 1 dead_listing j start_pager =
     Some (Inr \<lparr>reviews = [], page = 2, hasMorePages = True, consecutiveEmptyPages = 1,
                iter = 1, visits = [(1, 0)]\<rparr>)"
proof -
  let ?s1 = "\<lparr>reviews = [], page = 2, hasMorePages = True, consecutiveEmptyPages = 1,
              iter = 1, visits = [(1, 0)]\<rparr>"
  have "browser_loop 1 dead_listing j start_pager = browser_loop 1 dead_listing j ?s1"
    using assms
    by (subst browser_loop_navigation_failed)
      (auto simp add: browser_cond_def start_pager_def dead_listing_def eval_nat_numeral)
  also have "\<dots> = Some (Inr ?s1)"
    by (rule browser_loop_stopped) (simp add: browser_cond_def)
  finally show ?thesis .
qed

lemma safeRequest_200:
  assumes "http w (req_ix c) = Resolved r" and "status r = 200" and "data r \<noteq> None"
  shows "safeRequest w url 3 c =
     (Inr (Some r),
      c\<lparr>rnd_ix := Suc (rnd_ix c), req_ix := Suc (req_ix c),
        trace := trace c @ [Slept Courtesy (delay c + random w (rnd_ix c) * 1000),
                            Requested url (userAgent c)]\<rparr>)"
  unfolding safeRequest_def
  by (subst safeRequest_from.simps) (simp add: attempt_once_200 [OF assms])

lemma safeRequest_404:
  assumes "http w (req_ix c) = Rejected (Some 404)"
  shows "safeRequest w url 3 c =
     (Inr None,
      c\<lparr>rnd_ix := Suc (rnd_ix c), req_ix := Suc (req_ix c),
        trace := trace c @ [Slept Courtesy (delay c + random w (rnd_ix c) * 1000),
                            Requested url (userAgent c)]\<rparr>)"
  unfolding safeRequest_def
  by (subst safeRequest_from.simps) (simp add: attempt_once_404 [OF assms])

lemma tp_loop_advance:
  assumes "tp_cond j st"
    and "safeRequest w (tp_pageUrl productUrl (page st)) 3 c = (Inr (Some r), c')"
    and "data r = Some html"
    and "extractReviews j html \<noteq> []"
    and "\<not> (length (in_window j (extractReviews j html)) < length (before_window j (extractReviews j html))
           \<and> 2 < page st)"
  shows "tp_loop w j productUrl (st, c) =
     tp_loop w j productUrl
       (st\<lparr>reviews := reviews st @ in_window j (extractReviews j html),
           page := Suc (page st), consecutiveEmptyPages := 0, iter := Suc (iter st),
           visits := visits st @ [(page st, consecutiveEmptyPages st)]\<rparr>, c')"
proof -
  have "tp_iteration w j productUrl (st, c) =
     Inr (st\<lparr>reviews := reviews st @ in_window j (extractReviews j html),
           page := Suc (page st), consecutiveEmptyPages := 0, iter := Suc (iter st),
           visits := visits st @ [(page st, consecutiveEmptyPages st)]\<rparr>, c')"
    using assms(2-5) by (auto simp add: tp_iteration_def Let_def count_page_eq)
  then show ?thesis
    by (subst tp_loop_unfold) (simp add: assms(1))
qed

lemma tp_loop_request_failed:
  assumes "tp_cond j st"
    and "safeRequest w (tp_pageUrl productUrl (page st)) 3 c = (Inr None, c')"
  shows "tp_loop w j productUrl (st, c) =
     tp_loop w j productUrl
       (st\<lparr>page := Suc (page st), consecutiveEmptyPages := Suc (consecutiveEmptyPages st),
           iter := Suc (iter st),
           visits := visits st @ [(page st, consecutiveEmptyPages st)]\<rparr>, c')"
proof -
  have "tp_iteration w j productUrl (st, c) =
     Inr (st\<lparr>page := Suc (page st), consecutiveEmptyPages := Suc (consecutiveEmptyPages st),
           iter := Suc (iter st),
           visits := visits st @ [(page st, consecutiveEmptyPages st)]\<rparr>, c')"
    using assms(2) by (simp add: tp_iteration_def Let_def)
  then show ?thesis
    by (subst tp_loop_unfold) (simp add: assms(1))
qed

lemma tp_loop_stopped:
  assumes "\<not> tp_cond j st"
  shows "tp_loop w j productUrl (st, c) = Some (Inr (st, c))"
  by (subst tp_loop_unfold) (simp add: assms)

lemma safeRequest_world5:
  assumes "req_ix c < 5"
  shows "\<exists>c'. safeRequest world5 url 3 c =
       (Inr (Some \<lparr>status = 200, data = Some (if req_ix c < 2 then ''in'' else ''old'')\<rparr>), c')
     \<and> req_ix c' = Suc (req_ix c)"
proof -
  have "http world5 (req_ix c) =
      Resolved \<lparr>status = 200, data = Some (if req_ix c < 2 then ''in'' else ''old'')\<rparr>"
    using assms by (simp add: world5_def)
  from safeRequest_200 [OF this] show ?thesis by simp
qed

lemma safeRequest_world_404:
  "\<exists>c'. safeRequest world_404 url 3 c = (Inr None, c') \<and> req_ix c' = Suc (req_ix c)"
proof -
  have "http world_404 (req_ix c) = Rejected (Some 404)"
    by (simp add: world_404_def)
  from safeRequest_404 [OF this] show ?thesis by simp
qed

lemma tp_listing5:
  assumes "req_ix c = 0"
  shows "\<exists>c'. tp_loop world5 job5 productUrl (start_pager, c) =
       Some (Inr (\<lparr>reviews = [review_in, review_in, review_in, review_in], page = 3,
                hasMorePages = False, consecutiveEmptyPages = 0, iter = 3,
                visits = [(1, 0), (2, 0), (3, 0)]\<rparr>, c'))
     \<and> req_ix c' = 3"
proof -
  let ?s1 = "\<lparr>reviews = [review_in, review_in], page = 2, hasMorePages = True,
              consecutiveEmptyPages = 0, iter = 1, visits = [(1, 0)]\<rparr>"
  let ?s2 = "\<lparr>reviews = [review_in, review_in, review_in, review_in], page = 3,
              hasMorePages = True, consecutiveEmptyPages = 0, iter = 2,
              visits = [(1, 0), (2, 0)]\<rparr>"
  obtain c1 where r1: "safeRequest world5 (tp_pageUrl productUrl (page start_pager)) 3 c =
       (Inr (Some \<lparr>status = 200, data = Some ''in''\<rparr>), c1)" and x1: "req_ix c1 = 1"
    using safeRequest_world5 [of c] assms by auto
  obtain c2 where r2: "safeRequest world5 (tp_pageUrl productUrl (page ?s1)) 3 c1 =
       (Inr (Some \<lparr>status = 200, data = Some ''in''\<rparr>), c2)" and x2: "req_ix c2 = 2"
    using safeRequest_world5 [of c1] x1 by (auto simp: numeral_2_eq_2)
  obtain c3 where r3: "safeRequest world5 (tp_pageUrl productUrl (page ?s2)) 3 c2 =
       (Inr (Some \<lparr>status = 200, data = Some ''old''\<rparr>), c3)" and x3: "req_ix c3 = 3"
    using safeRequest_world5 [of c2] x2 by (auto simp: numeral_2_eq_2 numeral_3_eq_3)
  have "tp_loop world5 job5 productUrl (start_pager, c) = tp_loop world5 job5 productUrl (?s1, c1)"
    by (subst tp_loop_advance [OF _ r1, where html = "''in''"])
      (simp_all add: tp_cond_def start_pager_def eval_nat_numeral)
  also have "\<dots> = tp_loop world5 job5 productUrl (?s2, c2)"
    by (subst tp_loop_advance [OF _ r2, where html = "''in''"])
      (simp_all add: tp_cond_def eval_nat_numeral)
  also have "\<dots> = Some (Inr (\<lparr>reviews = [review_in, review_in, review_in, review_in], page = 3,
                hasMorePages = False, consecutiveEmptyPages = 0, iter = 3,
                visits = [(1, 0), (2, 0), (3, 0)]\<rparr>, c3))"
    by (subst tp_loop_early_stop [OF _ r3, where html = "''old''"])
      (simp_all add: tp_cond_def eval_nat_numeral)
  finally show ?thesis using x3 by blast
qed

lemma tp_dead_listing:
  assumes "maxPages j = - 1 \<or> 3 \<le> maxPages j"
  shows "\<exists>c'. tp_loop world_404 j productUrl (start_pager, c) =
       Some (Inr (\<lparr>reviews = [], page = 4, hasMorePages = True, consecutiveEmptyPages = 3,
                iter = 3, visits = [(1, 0), (2, 1), (3, 2)]\<rparr>, c'))
     \<and> req_ix c' = req_ix c + 3"
proof -
  let ?s1 = "\<lparr>reviews = [], page = 2, hasMorePages = True, consecutiveEmptyPages = 1,
              iter = 1, visits = [(1, 0)]\<rparr>"
  let ?s2 = "\<lparr>reviews = [], page = 3, hasMorePages = True, consecutiveEmptyPages = 2,
              iter = 2, visits = [(1, 0), (2, 1)]\<rparr>"
  let ?s3 = "\<lparr>reviews = [], page = 4, hasMorePages = True, consecutiveEmptyPages = 3,
              iter = 3, visits = [(1, 0), (2, 1), (3, 2)]\<rparr>"
  obtain c1 where r1: "safeRequest world_404 (tp_pageUrl productUrl (page start_pager)) 3 c =
       (Inr None, c1)" and x1: "req_ix c1 = Suc (req_ix c)"
    using safeRequest_world_404 [of _ c] by blast
  obtain c2 where r2: "safeRequest world_404 (tp_pageUrl productUrl (page ?s1)) 3 c1 =
       (Inr None, c2)" and x2: "req_ix c2 = Suc (req_ix c1)"
    using safeRequest_world_404 [of _ c1] by blast
  obtain c3 where r3: "safeRequest world_404 (tp_pageUrl productUrl (page ?s2)) 3 c2 =
       (Inr None, c3)" and x3: "req_ix c3 = Suc (req_ix c2)"
    using safeRequest_world_404 [of _ c2] by blast
  have "tp_loop world_404 j productUrl (start_pager, c) = tp_loop world_404 j productUrl (?s1, c1)"
    using assms
    by (subst tp_loop_request_failed [OF _ r1])
      (auto simp add: tp_cond_def start_pager_def eval_nat_numeral)
  also have "\<dots> = tp_loop world_404 j productUrl (?s2, c2)"
    using assms
    by (subst tp_loop_request_failed [OF _ r2]) (auto simp add: tp_cond_def eval_nat_numeral)
  also have "\<dots> = tp_loop world_404 j productUrl (?s3, c3)"
    using assms
    by (subst tp_loop_request_failed [OF _ r3]) (auto simp add: tp_cond_def eval_nat_numeral)
  also have "\<dots> = Some (Inr (?s3, c3))"
    by (rule tp_loop_stopped) (simp add: tp_cond_def)
  finally show ?thesis using x1 x2 x3 by auto
qed

lemma start_pager_fields [simp]:
  "reviews start_pager = []" "visits start_pager = []"
  by (simp_all add: start_pager_def)

text \<open>
  C1. Whatever the pages, the extraction, the date parser and the window, every review in
  the list that \<open>scrapeReviews\<close> of G2, Capterra or TrustPilot returns has a date that
  parses, to a day \<open>d\<close> with \<open>startDate \<le> d \<le> endDate\<close>; a review whose date parses to
  \<open>null\<close> is therefore never in the list.
\<close>

theorem scrapeReviews_returns_only_in_window:
  "(g2_scrapeReviews env j found = Some (Inr st) \<longrightarrow>
      (\<forall>r\<in>set (reviews st).
         \<exists>d. parseDate (moment j) (date r) = Some d \<and> startDate j \<le> d \<and> d \<le> endDate j))
   \<and> (capterra_scrapeReviews env j found = Some (Inr st) \<longrightarrow>
      (\<forall>r\<in>set (reviews st).
         \<exists>d. parseDate (moment j) (date r) = Some d \<and> startDate j \<le> d \<and> d \<le> endDate j))
   \<and> (tp_scrapeReviews w j found c = Some (Inr (st, c')) \<longrightarrow>
      (\<forall>r\<in>set (reviews st).
         \<exists>d. parseDate (moment j) (date r) = Some d \<and> startDate j \<le> d \<and> d \<le> endDate j))"
proof -
  have init: "\<forall>r\<in>set (reviews start_pager). dated_in_window j r" by simp
  have "\<forall>r\<in>set (reviews st). dated_in_window j r"
    if "g2_scrapeReviews env j found = Some (Inr st)"
    using that browser_loop_reviews [OF _ init, of 3 env st]
    by (auto simp: g2_scrapeReviews_def split: sum.splits option.splits)
  moreover have "\<forall>r\<in>set (reviews st). dated_in_window j r"
    if "capterra_scrapeReviews env j found = Some (Inr st)"
    using that browser_loop_reviews [OF _ init, of 1 env st]
    by (auto simp: capterra_scrapeReviews_def split: sum.splits option.splits)
  moreover have "\<forall>r\<in>set (reviews st). dated_in_window j r"
    if "tp_scrapeReviews w j found c = Some (Inr (st, c'))"
    using that tp_loop_reviews [OF _ init, of w _ c st c']
    by (auto simp: tp_scrapeReviews_def split: sum.splits option.splits)
  ultimately show ?thesis
    unfolding dated_in_window_def by blast
qed

lemma g2_listing5:
  "g2_scrapeReviews listing5 job5 (Inr (Some url)) =
     Some (Inr \<lparr>reviews = [review_in, review_in, review_in, review_in], page = 3,
                hasMorePages = False, consecutiveEmptyPages = 0, iter = 3,
                visits = [(1, 0), (2, 0), (3, 0)]\<rparr>)"
  by (simp add: g2_scrapeReviews_def browser_listing5)

lemma capterra_listing5:
  "capterra_scrapeReviews listing5 job5 (Inr (Some url)) =
     Some (Inr \<lparr>reviews = [review_in, review_in, review_in, review_in], page = 3,
                hasMorePages = False, consecutiveEmptyPages = 0, iter = 3,
                visits = [(1, 0), (2, 0), (3, 0)]\<rparr>)"
  by (simp add: capterra_scrapeReviews_def browser_listing5)

lemma tp_scrape_listing5:
  "\<exists>c'. tp_scrapeReviews world5 job5 (Inr (Some url)) (newClient 2500) =
       Some (Inr (\<lparr>reviews = [review_in, review_in, review_in, review_in], page = 3,
                hasMorePages = False, consecutiveEmptyPages = 0, iter = 3,
                visits = [(1, 0), (2, 0), (3, 0)]\<rparr>, c'))
     \<and> req_ix c' = 3"
  using tp_listing5 [of "newClient 2500" url]
  by (simp add: tp_scrapeReviews_def newClient_def)

theorem scrapeReviews_returns_only_in_window_witness:
  "g2_scrapeReviews listing5 job5 (Inr (Some ''https://www.g2.com/products/slack/reviews'')) =
     Some (Inr \<lparr>reviews = [review_in, review_in, review_in, review_in], page = 3,
                hasMorePages = False, consecutiveEmptyPages = 0, iter = 3,
                visits = [(1, 0), (2, 0), (3, 0)]\<rparr>)
   \<and> capterra_scrapeReviews listing5 job5
       (Inr (Some ''https://www.capterra.com/p/135003/Slack/reviews/?page=1'')) =
     Some (Inr \<lparr>reviews = [review_in, review_in, review_in, review_in], page = 3,
                hasMorePages = False, consecutiveEmptyPages = 0, iter = 3,
                visits = [(1, 0), (2, 0), (3, 0)]\<rparr>)
   \<and> (\<exists>c'. tp_scrapeReviews world5 job5 (Inr (Some ''https://www.trustpilot.com/review/slack.com''))
         (newClient 2500) =
     Some (Inr (\<lparr>reviews = [review_in, review_in, review_in, review_in], page = 3,
                hasMorePages = False, consecutiveEmptyPages = 0, iter = 3,
                visits = [(1, 0), (2, 0), (3, 0)]\<rparr>, c')))
   \<and> (\<exists>d. parseDate (moment job5) (date review_in) = Some d \<and> startDate job5 \<le> d
          \<and> d \<le> endDate job5)"
proof -
  let ?F = "\<lparr>reviews = [review_in, review_in, review_in, review_in], page = 3,
                hasMorePages = False, consecutiveEmptyPages = 0, iter = 3,
                visits = [(1, 0), (2, 0), (3, 0)]\<rparr>"
  note g = g2_listing5 [of "''https://www.g2.com/products/slack/reviews''"]
  note k = capterra_listing5 [of "''https://www.capterra.com/p/135003/Slack/reviews/?page=1''"]
  obtain c' where t: "tp_scrapeReviews world5 job5
      (Inr (Some ''https://www.trustpilot.com/review/slack.com'')) (newClient 2500) =
      Some (Inr (?F, c'))"
    using tp_scrape_listing5 [of "''https://www.trustpilot.com/review/slack.com''"] by blast
  note inst = scrapeReviews_returns_only_in_window
    [where env = listing5 and j = job5 and st = ?F and w = world5 and c = "newClient 2500"
       and c' = c']
  from inst [where found = "Inr (Some ''https://www.g2.com/products/slack/reviews'')"] g
  have a: "\<exists>d. parseDate (moment job5) (date review_in) = Some d \<and> startDate job5 \<le> d
          \<and> d \<le> endDate job5"
    by simp
  from inst [where found = "Inr (Some ''https://www.capterra.com/p/135003/Slack/reviews/?page=1'')"] k
  have b: "\<exists>d. parseDate (moment job5) (date review_in) = Some d \<and> startDate job5 \<le> d
          \<and> d \<le> endDate job5"
    by simp
  from inst [where found = "Inr (Some ''https://www.trustpilot.com/review/slack.com'')"] t
  have "\<exists>d. parseDate (moment job5) (date review_in) = Some d \<and> startDate job5 \<le> d
          \<and> d \<le> endDate job5"
    by simp
  with a b g k t show ?thesis by blast
qed

text \<open>
  C2. When the loop of a browser-backed scraper (G2, Capterra: any threshold \<open>N\<close>) or of
  TrustPilot is at a page number above 2, fetches that page and extracts from it more
  reviews dated strictly before the window start than reviews in the window, it returns
  right there: the state returned has this page as its last visit, \<open>hasMorePages\<close> false
  and the page number unchanged. On the five-page listing, pages 1 and 2 in the window
  and pages 3 to 5 before it, all three scrapers visit pages 1, 2 and 3 and stop; the
  TrustPilot client has then sent exactly three requests.
\<close>

theorem early_stop_halts_pagination:
  "(browser_cond N j st \<and> navigationSuccess (env (iter st))
      \<and> htmlContent (env (iter st)) = Some html \<and> html \<noteq> [] \<and> 2 < page st
      \<and> length (in_window j (extractReviews j html)) < length (before_window j (extractReviews j html))
    \<longrightarrow> browser_loop N env j st =
          Some (Inr (st\<lparr>reviews := reviews st @ in_window j (extractReviews j html),
                        hasMorePages := False, consecutiveEmptyPages := 0, iter := Suc (iter st),
                        visits := visits st @ [(page st, consecutiveEmptyPages st)]\<rparr>)))
   \<and> (tp_cond j st \<and> safeRequest w (tp_pageUrl productUrl (page st)) 3 c = (Inr (Some r), c')
      \<and> data r = Some html \<and> 2 < page st
      \<and> length (in_window j (extractReviews j html)) < length (before_window j (extractReviews j html))
    \<longrightarrow> tp_loop w j productUrl (st, c) =
          Some (Inr (st\<lparr>reviews := reviews st @ in_window j (extractReviews j html),
                        hasMorePages := False, consecutiveEmptyPages := 0, iter := Suc (iter st),
                        visits := visits st @ [(page st, consecutiveEmptyPages st)]\<rparr>, c')))
   \<and> g2_scrapeReviews listing5 job5 (Inr (Some ''https://www.g2.com/products/slack/reviews'')) =
       Some (Inr \<lparr>reviews = [review_in, review_in, review_in, review_in], page = 3,
                  hasMorePages = False, consecutiveEmptyPages = 0, iter = 3,
                  visits = [(1, 0), (2, 0), (3, 0)]\<rparr>)
   \<and> capterra_scrapeReviews listing5 job5
         (Inr (Some ''https://www.capterra.com/p/135003/Slack/reviews/?page=1'')) =
       Some (Inr \<lparr>reviews = [review_in, review_in, review_in, review_in], page = 3,
                  hasMorePages = False, consecutiveEmptyPages = 0, iter = 3,
                  visits = [(1, 0), (2, 0), (3, 0)]\<rparr>)
   \<and> (\<exists>c3. tp_scrapeReviews world5 job5 (Inr (Some ''https://www.trustpilot.com/review/slack.com''))
           (newClient 2500) =
       Some (Inr (\<lparr>reviews = [review_in, review_in, review_in, review_in], page = 3,
                  hasMorePages = False, consecutiveEmptyPages = 0, iter = 3,
                  visits = [(1, 0), (2, 0), (3, 0)]\<rparr>, c3))
       \<and> req_ix c3 = 3)"
  using browser_loop_early_stop [of N j st env html]
    tp_loop_early_stop [of j st w productUrl c r c' html]
    g2_listing5 [of "''https://www.g2.com/products/slack/reviews''"]
    capterra_listing5 [of "''https://www.capterra.com/p/135003/Slack/reviews/?page=1''"]
    tp_scrape_listing5 [of "''https://www.trustpilot.com/review/slack.com''"]
  by blast

theorem early_stop_halts_pagination_witness:
  "browser_cond 3 job5 third_page \<and> navigationSuccess (listing5 (iter third_page))
   \<and> htmlContent (listing5 (iter third_page)) = Some ''old'' \<and> 2 < page third_page
   \<and> length (in_window job5 (extractReviews job5 ''old''))
       < length (before_window job5 (extractReviews job5 ''old''))
   \<and> browser_loop 3 listing5 job5 third_page =
       Some (Inr \<lparr>reviews = [review_in, review_in, review_in, review_in], page = 3,
                  hasMorePages = False, consecutiveEmptyPages = 0, iter = 3,
                  visits = [(1, 0), (2, 0), (3, 0)]\<rparr>)
   \<and> tp_cond job5 third_page
   \<and> safeRequest world5 (tp_pageUrl ''https://www.trustpilot.com/review/slack.com'' (page third_page)) 3
        ((newClient 2500)\<lparr>req_ix := 2\<rparr>) =
       (Inr (Some \<lparr>status = 200, data = Some ''old''\<rparr>),
        (newClient 2500)\<lparr>rnd_ix := 1, req_ix := 3,
          trace := [Slept Courtesy 3000,
                    Requested (tp_pageUrl ''https://www.trustpilot.com/review/slack.com'' 3)
                      (Some defaultUserAgent)]\<rparr>)
   \<and> tp_loop world5 job5 ''https://www.trustpilot.com/review/slack.com''
        (third_page, (newClient 2500)\<lparr>req_ix := 2\<rparr>) =
       Some (Inr (\<lparr>reviews = [review_in, review_in, review_in, review_in], page = 3,
                  hasMorePages = False, consecutiveEmptyPages = 0, iter = 3,
                  visits = [(1, 0), (2, 0), (3, 0)]\<rparr>,
                 (newClient 2500)\<lparr>rnd_ix := 1, req_ix := 3,
                   trace := [Slept Courtesy 3000,
                     Requested (tp_pageUrl ''https://www.trustpilot.com/review/slack.com'' 3)
                       (Some defaultUserAgent)]\<rparr>))"
proof -
  let ?c = "(newClient 2500)\<lparr>req_ix := 2\<rparr>"
  let ?c' = "(newClient 2500)\<lparr>rnd_ix := 1, req_ix := 3,
          trace := [Slept Courtesy 3000,
                    Requested (tp_pageUrl ''https://www.trustpilot.com/review/slack.com'' 3)
                      (Some defaultUserAgent)]\<rparr>"
  let ?r = "\<lparr>status = 200, data = Some ''old''\<rparr>"
  have b: "browser_cond 3 job5 third_page" and t: "tp_cond job5 third_page"
    by (simp_all add: browser_cond_def tp_cond_def third_page_def)
  have n: "navigationSuccess (listing5 (iter third_page))"
    and h: "htmlContent (listing5 (iter third_page)) = Some ''old''"
    and p: "2 < page third_page"
    and l: "length (in_window job5 (extractReviews job5 ''old''))
       < length (before_window job5 (extractReviews job5 ''old''))"
    by (simp_all add: third_page_def)
  have "http world5 (req_ix ?c) = Resolved ?r"
    by (simp add: world5_def)
  from safeRequest_200 [OF this]
  have s: "safeRequest world5
        (tp_pageUrl ''https://www.trustpilot.com/review/slack.com'' (page third_page)) 3 ?c =
       (Inr (Some ?r), ?c')"
    by (simp add: newClient_def world5_def third_page_def)
  have d: "data ?r = Some ''old''" by simp
  have e: "''old'' \<noteq> []" by simp
  from early_stop_halts_pagination [of 3 job5 third_page listing5 "''old''" world5
      "''https://www.trustpilot.com/review/slack.com''" ?c ?r ?c']
    b n h e p l t s d
  have "browser_loop 3 listing5 job5 third_page =
          Some (Inr (third_page\<lparr>reviews := reviews third_page @ in_window job5 (extractReviews job5 ''old''),
                        hasMorePages := False, consecutiveEmptyPages := 0,
                        iter := Suc (iter third_page),
                        visits := visits third_page @ [(page third_page, consecutiveEmptyPages third_page)]\<rparr>))"
    and "tp_loop world5 job5 ''https://www.trustpilot.com/review/slack.com'' (third_page, ?c) =
          Some (Inr (third_page\<lparr>reviews := reviews third_page @ in_window job5 (extractReviews job5 ''old''),
                        hasMorePages := False, consecutiveEmptyPages := 0,
                        iter := Suc (iter third_page),
                        visits := visits third_page @ [(page third_page, consecutiveEmptyPages third_page)]\<rparr>, ?c'))"
    by blast+
  then have "browser_loop 3 listing5 job5 third_page =
       Some (Inr \<lparr>reviews = [review_in, review_in, review_in, review_in], page = 3,
                  hasMorePages = False, consecutiveEmptyPages = 0, iter = 3,
                  visits = [(1, 0), (2, 0), (3, 0)]\<rparr>)"
    and "tp_loop world5 job5 ''https://www.trustpilot.com/review/slack.com'' (third_page, ?c) =
       Some (Inr (\<lparr>reviews = [review_in, review_in, review_in, review_in], page = 3,
                  hasMorePages = False, consecutiveEmptyPages = 0, iter = 3,
                  visits = [(1, 0), (2, 0), (3, 0)]\<rparr>, ?c'))"
    by (simp_all add: third_page_def)
  with b n h p l t s show ?thesis by simp
qed

text \<open>
  C3, as the code has it. The threshold is 3 for TrustPilot and for G2, and 1 for
  Capterra: in every run that returns, each page was fetched at a moment when the
  consecutive-empty-page counter was below that threshold, and a loop whose counter has
  reached it returns without fetching.
\<close>

theorem pagination_continues_below_threshold:
  "(g2_scrapeReviews env j found = Some (Inr st) \<longrightarrow> (\<forall>(p, n)\<in>set (visits st). n < 3))
   \<and> (capterra_scrapeReviews env j found = Some (Inr st) \<longrightarrow> (\<forall>(p, n)\<in>set (visits st). n < 1))
   \<and> (tp_scrapeReviews w j found c = Some (Inr (st, c')) \<longrightarrow> (\<forall>(p, n)\<in>set (visits st). n < 3))
   \<and> (3 \<le> consecutiveEmptyPages s \<longrightarrow> browser_loop 3 env j s = Some (Inr s))
   \<and> (1 \<le> consecutiveEmptyPages s \<longrightarrow> browser_loop 1 env j s = Some (Inr s))
   \<and> (3 \<le> consecutiveEmptyPages s \<longrightarrow> tp_loop w j productUrl (s, c) = Some (Inr (s, c)))"
proof -
  have i3: "\<forall>(p, n)\<in>set (visits start_pager). n < 3"
    and i1: "\<forall>(p, n)\<in>set (visits start_pager). n < 1" by simp_all
  have "\<forall>(p, n)\<in>set (visits st). n < 3" if "g2_scrapeReviews env j found = Some (Inr st)"
    using that browser_loop_visits [OF _ i3, of env j st]
    by (auto simp: g2_scrapeReviews_def split: sum.splits option.splits)
  moreover have "\<forall>(p, n)\<in>set (visits st). n < 1"
    if "capterra_scrapeReviews env j found = Some (Inr st)"
    using that browser_loop_visits [OF _ i1, of env j st]
    by (auto simp: capterra_scrapeReviews_def split: sum.splits option.splits)
  moreover have "\<forall>(p, n)\<in>set (visits st). n < 3"
    if "tp_scrapeReviews w j found c = Some (Inr (st, c'))"
    using that tp_loop_visits [OF _ i3, of w j _ c st c']
    by (auto simp: tp_scrapeReviews_def split: sum.splits option.splits)
  moreover have "browser_loop 3 env j s = Some (Inr s)" if "3 \<le> consecutiveEmptyPages s"
    using that by (intro browser_loop_stopped) (simp add: browser_cond_def)
  moreover have "browser_loop 1 env j s = Some (Inr s)" if "1 \<le> consecutiveEmptyPages s"
    using that by (intro browser_loop_stopped) (simp add: browser_cond_def)
  moreover have "tp_loop w j productUrl (s, c) = Some (Inr (s, c))" if "3 \<le> consecutiveEmptyPages s"
    using that by (intro tp_loop_stopped) (simp add: tp_cond_def)
  ultimately show ?thesis by blast
qed

lemma job5_maxPages_unbounded [simp]: "maxPages (job5\<lparr>maxPages := - 1\<rparr>) = - 1"
  by simp

theorem pagination_continues_below_threshold_witness:
  "g2_scrapeReviews dead_listing (job5\<lparr>maxPages := - 1\<rparr>)
       (Inr (Some ''https://www.g2.com/products/slack/reviews'')) =
     Some (Inr \<lparr>reviews = [], page = 4, hasMorePages = True, consecutiveEmptyPages = 3,
                iter = 3, visits = [(1, 0), (2, 1), (3, 2)]\<rparr>)
   \<and> list_all (\<lambda>v. snd v < 3) [(1::nat, 0::nat), (2, 1), (3, 2)]
   \<and> capterra_scrapeReviews dead_listing (job5\<lparr>maxPages := - 1\<rparr>)
       (Inr (Some ''https://www.capterra.com/p/135003/Slack/reviews/?page=1'')) =
     Some (Inr \<lparr>reviews = [], page = 2, hasMorePages = True, consecutiveEmptyPages = 1,
                iter = 1, visits = [(1, 0)]\<rparr>)
   \<and> list_all (\<lambda>v. snd v < 1) [(1::nat, 0::nat)]
   \<and> (\<exists>c'. tp_scrapeReviews world_404 (job5\<lparr>maxPages := - 1\<rparr>)
           (Inr (Some ''https://www.trustpilot.com/review/slack.com'')) (newClient 2500) =
     Some (Inr (\<lparr>reviews = [], page = 4, hasMorePages = True, consecutiveEmptyPages = 3,
                iter = 3, visits = [(1, 0), (2, 1), (3, 2)]\<rparr>, c')))
   \<and> browser_loop 3 dead_listing (job5\<lparr>maxPages := - 1\<rparr>)
       \<lparr>reviews = [], page = 4, hasMorePages = True, consecutiveEmptyPages = 3,
                iter = 3, visits = [(1, 0), (2, 1), (3, 2)]\<rparr> =
     Some (Inr \<lparr>reviews = [], page = 4, hasMorePages = True, consecutiveEmptyPages = 3,
                iter = 3, visits = [(1, 0), (2, 1), (3, 2)]\<rparr>)"
proof -
  let ?j = "job5\<lparr>maxPages := - 1\<rparr>"
  let ?D3 = "\<lparr>reviews = [], page = 4, hasMorePages = True, consecutiveEmptyPages = 3,
                iter = 3, visits = [(1, 0), (2, 1), (3, 2)]\<rparr>"
  let ?D1 = "\<lparr>reviews = [], page = 2, hasMorePages = True, consecutiveEmptyPages = 1,
                iter = 1, visits = [(1, 0)]\<rparr>"
  have g: "g2_scrapeReviews dead_listing ?j
       (Inr (Some ''https://www.g2.com/products/slack/reviews'')) = Some (Inr ?D3)"
    by (simp add: g2_scrapeReviews_def browser_dead_listing)
  have k: "capterra_scrapeReviews dead_listing ?j
       (Inr (Some ''https://www.capterra.com/p/135003/Slack/reviews/?page=1'')) = Some (Inr ?D1)"
    using browser_dead_listing_1 [of ?j] by (simp add: capterra_scrapeReviews_def)
  obtain c' where t: "tp_scrapeReviews world_404 ?j
       (Inr (Some ''https://www.trustpilot.com/review/slack.com'')) (newClient 2500) =
       Some (Inr (?D3, c'))"
    using tp_dead_listing [of ?j "''https://www.trustpilot.com/review/slack.com''" "newClient 2500"]
    by (auto simp add: tp_scrapeReviews_def)
  have e: "3 \<le> consecutiveEmptyPages ?D3" by simp
  note inst = pagination_continues_below_threshold
    [where env = dead_listing and j = ?j and w = world_404 and c = "newClient 2500" and c' = c'
       and s = ?D3 and productUrl = "''https://www.trustpilot.com/review/slack.com''"]
  from inst [where found = "Inr (Some ''https://www.g2.com/products/slack/reviews'')" and st = ?D3] g
  have "\<forall>(p, n)\<in>set (visits ?D3). n < 3" by blast
  then have v3: "list_all (\<lambda>v. snd v < 3) [(1::nat, 0::nat), (2, 1), (3, 2)]" by simp
  from inst [where found = "Inr (Some ''https://www.trustpilot.com/review/slack.com'')" and st = ?D3] t
  have "\<forall>(p, n)\<in>set (visits ?D3). n < 3" by blast
  then have v3': "list_all (\<lambda>v. snd v < 3) [(1::nat, 0::nat), (2, 1), (3, 2)]" by simp
  from inst [where found = "Inr (Some ''https://www.g2.com/products/slack/reviews'')" and st = ?D3] e
  have stop: "browser_loop 3 dead_listing ?j ?D3 = Some (Inr ?D3)" by blast
  from inst [where found = "Inr (Some ''https://www.capterra.com/p/135003/Slack/reviews/?page=1'')"
      and st = ?D1] k
  have "\<forall>(p, n)\<in>set (visits ?D1). n < 1" by blast
  then have v1: "list_all (\<lambda>v. snd v < 1) [(1::nat, 0::nat)]" by simp
  from g v3 v3' k v1 t stop show ?thesis by blast
qed

text \<open>
  The claim as stated fails for G2: when every navigation fails, the G2 loop fetches
  page 2 with the counter at 1 and page 3 with the counter at 2, and stops only at 3.
\<close>

theorem g2_continues_after_empty_pages:
  "g2_scrapeReviews dead_listing job5 (Inr (Some ''https://www.g2.com/products/slack/reviews'')) =
     Some (Inr \<lparr>reviews = [], page = 4, hasMorePages = True, consecutiveEmptyPages = 3,
                iter = 3, visits = [(1, 0), (2, 1), (3, 2)]\<rparr>)"
  by (simp add: g2_scrapeReviews_def browser_dead_listing)

end
